theory Spec2Isabelle
  imports Complex_Main "HOL-Library.AList" "HOL-Library.Multiset"
begin

section \<open>Data model (src/managers/types.ts)\<close>

text \<open>
  \<^verbatim>\<open>enum ClientLayer { DevTools = 'devtools', Popup = 'popup', Options = 'options' }\<close>
\<close>

datatype ClientLayer = DevTools | Popup | Options

fun layer_token :: "ClientLayer \<Rightarrow> string" where
  "layer_token DevTools = ''devtools''"
| "layer_token Popup = ''popup''"
| "layer_token Options = ''options''"

text \<open>
  \<^verbatim>\<open>TabId = number\<close>. A JavaScript number is kept as the exact value it denotes: NaN, the two
  infinities, or a finite rational. Rounding to an IEEE double is not modelled, so the model
  and the program agree on every value that a double holds exactly (all integers below
  \<open>2^53\<close> among them); \<open>+0\<close> and \<open>-0\<close>, which name the same property key, are one value.
\<close>

datatype jsnum = NaN | PosInf | NegInf | Fin rat

type_synonym TabId = jsnum

text \<open>\<^verbatim>\<open>interface BaseMessage { type: string; data: unknown }\<close>: the payload is opaque.\<close>

datatype 'd BaseMessage = BaseMessage (msg_type: string) (msg_data: 'd)

text \<open>
  A \<^verbatim>\<open>chrome.runtime.Port\<close> is an object of the host: it has an identity (two ports are the
  same object iff their \<open>port_id\<close> agree) and a readable name.
\<close>

record Port =
  port_id :: nat
  port_name :: string

record ConnectionOptions =
  layer :: ClientLayer
  tabId :: TabId

text \<open>
  \<^verbatim>\<open>Connections = Record<TabId, Record<ClientLayer, Port | undefined>>\<close>. A JavaScript object is
  an association list of its own properties in creation order: assignment to an existing key
  keeps its place, assignment to a new key appends, \<^verbatim>\<open>delete\<close> removes the key. A slot that holds
  \<^verbatim>\<open>undefined\<close> is a key with value \<open>None\<close>, which is not the same as a missing key.
\<close>

type_synonym LayersRecord = "(ClientLayer \<times> Port option) list"

type_synonym Connections = "(TabId \<times> LayersRecord) list"

definition wf_connections :: "Connections \<Rightarrow> bool" where
  "wf_connections c \<longleftrightarrow>
     distinct (map fst c) \<and> (\<forall>r \<in> set (map snd c). distinct (map fst r))"

section \<open>ConnectionManager (src/managers/connectionManager.ts)\<close>

definition empty_layers :: LayersRecord where
  "empty_layers = [(DevTools, None), (Popup, None), (Options, None)]"

definition addConnection :: "ConnectionOptions \<Rightarrow> Port \<Rightarrow> Connections \<Rightarrow> Connections" where
  "addConnection options port connections =
     (let connections1 =
            (if map_of connections (tabId options) = None
             then AList.update (tabId options) empty_layers connections
             else connections)
      in case map_of connections1 (tabId options) of
           None \<Rightarrow> connections1
         | Some tabConnections \<Rightarrow>
             AList.update (tabId options)
               (AList.update (layer options) (Some port) tabConnections) connections1)"

definition removeConnection :: "ConnectionOptions \<Rightarrow> Connections \<Rightarrow> Connections" where
  "removeConnection options connections =
     (case map_of connections (tabId options) of
        None \<Rightarrow> connections
      | Some tabConnections \<Rightarrow>
          (let tabConnections1 = AList.delete (layer options) tabConnections
           in if length (map fst tabConnections1) = 0
              then AList.delete (tabId options) connections
              else AList.update (tabId options) tabConnections1 connections))"

definition getConnection :: "ConnectionOptions \<Rightarrow> Connections \<Rightarrow> Port option" where
  "getConnection options connections =
     (case map_of connections (tabId options) of
        None \<Rightarrow> None
      | Some tabConnections \<Rightarrow>
          (case map_of tabConnections (layer options) of
             None \<Rightarrow> None
           | Some slot \<Rightarrow> slot))"

definition getAllConnections :: "Connections \<Rightarrow> Connections" where
  "getAllConnections connections = connections"

section \<open>BaseBackgroundManager.sendMessage (managers/baseBackgroundManager.ts)\<close>

text \<open>
  \<^verbatim>\<open>Object.keys\<close> lists the array-index keys (integers from 0 to \<open>2^32 - 2\<close>) in ascending order
  and then the other keys in creation order. The registry's keys are the string forms of
  numbers and \<^verbatim>\<open>.map(Number)\<close> reads each one back, so the keys are kept as numbers throughout.
\<close>

fun is_array_index :: "TabId \<Rightarrow> bool" where
  "is_array_index (Fin q) = (of_int \<lfloor>q\<rfloor> = q \<and> 0 \<le> q \<and> q < 4294967295)"
| "is_array_index _ = False"

fun index_value :: "TabId \<Rightarrow> rat" where
  "index_value (Fin q) = q"
| "index_value _ = 0"

definition object_keys :: "(TabId \<times> 'v) list \<Rightarrow> TabId list" where
  "object_keys obj =
     sort_key index_value (filter is_array_index (map fst obj))
       @ filter (\<lambda>k. \<not> is_array_index k) (map fst obj)"

text \<open>
  A call of \<^verbatim>\<open>port.postMessage(message)\<close> is recorded as the pair of the port and the message;
  \<^verbatim>\<open>sendMessage\<close> returns the calls it makes, in the order it makes them. The two \<^verbatim>\<open>for\<close> loops
  are the two recursions.
\<close>

primrec send_layers ::
  "LayersRecord \<Rightarrow> 'm \<Rightarrow> ClientLayer list \<Rightarrow> (Port \<times> 'm) list" where
  "send_layers layersRecord message [] = []"
| "send_layers layersRecord message (ly # rest) =
     (case map_of layersRecord ly of
        Some (Some port) \<Rightarrow> [(port, message)]
      | _ \<Rightarrow> [])
     @ send_layers layersRecord message rest"

primrec send_tabs ::
  "Connections \<Rightarrow> ClientLayer option \<Rightarrow> 'm \<Rightarrow> TabId list \<Rightarrow> (Port \<times> 'm) list" where
  "send_tabs allConnections layer_sel message [] = []"
| "send_tabs allConnections layer_sel message (tid # rest) =
     (case map_of allConnections tid of
        None \<Rightarrow> []
      | Some layersRecord \<Rightarrow>
          send_layers layersRecord message
            (case layer_sel of Some ly \<Rightarrow> [ly] | None \<Rightarrow> map fst layersRecord))
     @ send_tabs allConnections layer_sel message rest"

definition sendMessage ::
  "TabId option \<Rightarrow> ClientLayer option \<Rightarrow> 'm \<Rightarrow> Connections \<Rightarrow> (Port \<times> 'm) list" where
  "sendMessage tabId_sel layer_sel message connections =
     (let allConnections = getAllConnections connections;
          tabIds = (case tabId_sel of
                      Some t \<Rightarrow> [t]
                    | None \<Rightarrow> object_keys allConnections)
      in send_tabs allConnections layer_sel message tabIds)"

section \<open>Logger and observable effects\<close>

text \<open>
  The logger is an external collaborator (\<^verbatim>\<open>info\<close>, \<^verbatim>\<open>warn\<close>, \<^verbatim>\<open>error\<close> with a text and
  optional details). Every call is recorded with the details the source passes. An exception
  value is a string.
\<close>

type_synonym exn = string

type_synonym Listener = nat

datatype LogLevel = Info | Warn | Error

datatype LogDetails =
    NoDetails
  | PortDetails Port
  | OptionsDetails ConnectionOptions
  | NotListened "string option" string
  | Thrown exn
  | PortNameDetails string
  | TabIdDetails int

datatype 'd Effect =
    Log LogLevel string LogDetails
  | Invoke Listener "'d BaseMessage" "Port option"
  | PostMessage Port "'d BaseMessage"
  | TabsQuery
  | Connect string

section \<open>ListenerManager (src/managers/listenerManager.ts)\<close>

text \<open>
  \<^verbatim>\<open>listeners: Map<string, Set<BaseMessageListener>>\<close>. The closure returned by \<^verbatim>\<open>subscribe\<close>
  keeps a reference to the \<^verbatim>\<open>Set\<close> object it was created with, and \<^verbatim>\<open>notify\<close> iterates over a
  \<^verbatim>\<open>Set\<close> that listeners may change meanwhile, so the \<^verbatim>\<open>Set\<close> objects live in a store: \<open>sets\<close>
  holds every \<^verbatim>\<open>Set\<close> ever created, an address is an index into it, and the \<^verbatim>\<open>Map\<close> sends a type
  to an address. A listener is a function object, identified by a number.

  A \<^verbatim>\<open>Set\<close> is the list of its entries in insertion order (ECMAScript's \<^verbatim>\<open>[[SetData]]\<close>):
  \<^verbatim>\<open>add\<close> appends a value that is not there, \<^verbatim>\<open>delete\<close> leaves an empty entry (\<open>None\<close>) in the
  place of the value, so that the position of an iterator keeps its meaning, and the size
  counts the entries that are not empty.
\<close>

type_synonym ListenerSet = "Listener option list"

definition set_add :: "Listener \<Rightarrow> ListenerSet \<Rightarrow> ListenerSet" where
  "set_add x es = (if Some x \<in> set es then es else es @ [Some x])"

definition set_delete :: "Listener \<Rightarrow> ListenerSet \<Rightarrow> ListenerSet" where
  "set_delete x es = map (\<lambda>e. if e = Some x then None else e) es"

primrec set_values :: "ListenerSet \<Rightarrow> Listener list" where
  "set_values [] = []"
| "set_values (e # es) = (case e of None \<Rightarrow> set_values es | Some x \<Rightarrow> x # set_values es)"

definition set_size :: "ListenerSet \<Rightarrow> nat" where
  "set_size es = length (set_values es)"

record ListenerManager =
  listeners :: "(string \<times> nat) list"
  sets :: "ListenerSet list"

definition new_ListenerManager :: ListenerManager where
  "new_ListenerManager = \<lparr>listeners = [], sets = []\<rparr>"

text \<open>The closure \<^verbatim>\<open>() => { listeners.delete(listener); ... this.listeners.delete(type) }\<close>
  with its three captured variables.\<close>

record Unsubscribe =
  captured_listeners :: nat
  captured_type :: string
  captured_listener :: Listener

definition subscribe ::
  "string \<Rightarrow> Listener \<Rightarrow> ListenerManager \<Rightarrow> Unsubscribe \<times> ListenerManager" where
  "subscribe type listener this =
     (let this1 =
            (if map_of (listeners this) type = None
             then this\<lparr>listeners := AList.update type (length (sets this)) (listeners this),
                       sets := sets this @ [[]]\<rparr>
             else this)
      in case map_of (listeners this1) type of
           None \<Rightarrow> (\<lparr>captured_listeners = length (sets this1), captured_type = type,
                      captured_listener = listener\<rparr>, this1)
         | Some a \<Rightarrow>
             (\<lparr>captured_listeners = a, captured_type = type, captured_listener = listener\<rparr>,
              this1\<lparr>sets := (sets this1)[a := set_add listener (sets this1 ! a)]\<rparr>))"

definition unsubscribe :: "Unsubscribe \<Rightarrow> ListenerManager \<Rightarrow> ListenerManager" where
  "unsubscribe u this =
     (let a = captured_listeners u;
          this1 = this\<lparr>sets := (sets this)[a := set_delete (captured_listener u) (sets this ! a)]\<rparr>
      in if set_size (sets this1 ! a) = 0
         then this1\<lparr>listeners := AList.delete (captured_type u) (listeners this1)\<rparr>
         else this1)"

definition clear :: "ListenerManager \<Rightarrow> ListenerManager" where
  "clear this = this\<lparr>listeners := []\<rparr>"

text \<open>
  What a listener does when it is called belongs to the caller of the library. A call of a
  listener may use the manager before it returns or throws: it may subscribe listeners, call
  unsubscribe closures, clear the manager and call \<^verbatim>\<open>notify\<close> itself. So
  \<open>run listener message senderPort this\<close>, for the state \<open>this\<close> of the manager at the
  call, gives the calls the listener makes on the manager, in order, and \<open>Some e\<close> when it
  then throws \<open>e\<close>, \<open>None\<close> when it returns (its return value is ignored by the source).
\<close>

datatype 'd Action =
    Subscribes string Listener
  | Unsubscribes Unsubscribe
  | Clears
  | Notifies "'d BaseMessage" "Port option"

type_synonym 'd Behaviour =
  "Listener \<Rightarrow> 'd BaseMessage \<Rightarrow> Port option \<Rightarrow> ListenerManager \<Rightarrow> 'd Action list \<times> exn option"

text \<open>
  A computation yields the effects it performed, either returns (\<open>Inr ()\<close>) or throws
  (\<open>Inl e\<close>), and leaves the manager in a new state. \<^verbatim>\<open>try { ... } catch (error) { ... }\<close>:
\<close>

definition try_catch ::
  "'e list \<times> (exn + unit) \<times> 's \<Rightarrow> (exn \<Rightarrow> 's \<Rightarrow> 'e list \<times> (exn + unit) \<times> 's)
     \<Rightarrow> 'e list \<times> (exn + unit) \<times> 's" where
  "try_catch body handler =
     (case body of
        (effs, Inr u, s) \<Rightarrow> (effs, Inr u, s)
      | (effs, Inl e, s) \<Rightarrow>
          (case handler e s of (effs', r, s') \<Rightarrow> (effs @ effs', r, s')))"

text \<open>
  \<^verbatim>\<open>notify\<close>. The loop \<^verbatim>\<open>for (const listener of listeners)\<close> walks the \<^verbatim>\<open>Set\<close> object it got
  from the map (address \<open>a\<close>), by position, as it is at each step: entries added during the
  loop are reached, entries deleted before their turn are skipped. Since a listener can call
  \<^verbatim>\<open>notify\<close> and can subscribe again and again, the calls are nested and need not end. The
  four kinds of call involved are the cases of one recursion: \<^verbatim>\<open>notify(message, senderPort)\<close>;
  the rest of the loop over the set at \<open>a\<close> from position \<open>i\<close>; the call of one listener; the
  calls a listener makes on the manager. The first argument bounds the depth of the calls, and
  \<open>None\<close> means that the call has not returned within that bound.
\<close>

datatype 'd Call =
    Notify "'d BaseMessage" "Port option"
  | ForOf "'d BaseMessage" "Port option" nat nat
  | CallListener Listener "'d BaseMessage" "Port option"
  | Perform "'d Action list"

primrec exec ::
  "nat \<Rightarrow> 'd Behaviour \<Rightarrow> 'd Call \<Rightarrow> ListenerManager
     \<Rightarrow> ('d Effect list \<times> (exn + unit) \<times> ListenerManager) option" where
  "exec 0 run call this = None"
| "exec (Suc n) run call this =
     (case call of
        Notify message senderPort \<Rightarrow>
          (case map_of (listeners this) (msg_type message) of
             None \<Rightarrow>
               Some ([Log Warn ''Not listened port event''
                        (NotListened (map_option port_name senderPort) (msg_type message))],
                     Inr (), this)
           | Some a \<Rightarrow> exec n run (ForOf message senderPort a 0) this)
      | ForOf message senderPort a i \<Rightarrow>
          (if length (sets this ! a) \<le> i then Some ([], Inr (), this)
           else case sets this ! a ! i of
                  None \<Rightarrow> exec n run (ForOf message senderPort a (Suc i)) this
                | Some listener \<Rightarrow>
                    (case exec n run (CallListener listener message senderPort) this of
                       None \<Rightarrow> None
                     | Some body \<Rightarrow>
                         (case try_catch body
                                 (\<lambda>error s.
                                    ([Log Error ''Listener error:'' (Thrown error)], Inr (), s)) of
                            (effs, Inl e, this1) \<Rightarrow> Some (effs, Inl e, this1)
                          | (effs, Inr u, this1) \<Rightarrow>
                              (case exec n run (ForOf message senderPort a (Suc i)) this1 of
                                 None \<Rightarrow> None
                               | Some (effs', r, this2) \<Rightarrow> Some (effs @ effs', r, this2)))))
      | CallListener listener message senderPort \<Rightarrow>
          (case exec n run (Perform (fst (run listener message senderPort this))) this of
             None \<Rightarrow> None
           | Some (effs, Inl e, this1) \<Rightarrow>
               Some (Invoke listener message senderPort # effs, Inl e, this1)
           | Some (effs, Inr u, this1) \<Rightarrow>
               Some (Invoke listener message senderPort # effs,
                     (case snd (run listener message senderPort this) of
                        Some e \<Rightarrow> Inl e
                      | None \<Rightarrow> Inr ()),
                     this1))
      | Perform acts \<Rightarrow>
          (case acts of
             [] \<Rightarrow> Some ([], Inr (), this)
           | Subscribes type listener # rest \<Rightarrow>
               exec n run (Perform rest) (snd (subscribe type listener this))
           | Unsubscribes u # rest \<Rightarrow> exec n run (Perform rest) (unsubscribe u this)
           | Clears # rest \<Rightarrow> exec n run (Perform rest) (clear this)
           | Notifies m sp # rest \<Rightarrow>
               (case exec n run (Notify m sp) this of
                  None \<Rightarrow> None
                | Some (effs, Inl e, this1) \<Rightarrow> Some (effs, Inl e, this1)
                | Some (effs, Inr u, this1) \<Rightarrow>
                    (case exec n run (Perform rest) this1 of
                       None \<Rightarrow> None
                     | Some (effs', r, this2) \<Rightarrow> Some (effs @ effs', r, this2)))))"

definition notify ::
  "nat \<Rightarrow> 'd Behaviour \<Rightarrow> 'd BaseMessage \<Rightarrow> Port option \<Rightarrow> ListenerManager
     \<Rightarrow> ('d Effect list \<times> (exn + unit) \<times> ListenerManager) option" where
  "notify n run message senderPort this = exec n run (Notify message senderPort) this"

text \<open>The subscribers of a type, as the registry holds them, in the order of the \<^verbatim>\<open>Set\<close>.\<close>

definition subscribers :: "ListenerManager \<Rightarrow> string \<Rightarrow> Listener list" where
  "subscribers this type =
     (case map_of (listeners this) type of None \<Rightarrow> [] | Some a \<Rightarrow> set_values (sets this ! a))"

definition registry :: "ListenerManager \<Rightarrow> (string \<times> Listener list) list" where
  "registry this = map (\<lambda>(type, a). (type, set_values (sets this ! a))) (listeners this)"

section \<open>JavaScript string primitives used by extractPortDetails\<close>

text \<open>
  A port name is a string of characters with code points below 256. \<^verbatim>\<open>name.split(':')\<close> cuts
  at every colon and always yields at least one segment.
\<close>

fun split_on :: "char \<Rightarrow> string \<Rightarrow> string list" where
  "split_on sep [] = [[]]"
| "split_on sep (c # cs) =
     (if c = sep then [] # split_on sep cs
      else (case split_on sep cs of
              [] \<Rightarrow> [[c]]
            | w # ws \<Rightarrow> (c # w) # ws))"

text \<open>
  \<^verbatim>\<open>Number(string)\<close> (the StringToNumber grammar of ECMAScript): white space is trimmed at
  both ends; the empty string is 0; the rest is a decimal literal with an optional sign
  (digits, an optional fraction, an optional exponent, or \<^verbatim>\<open>Infinity\<close>) or an unsigned binary,
  octal or hexadecimal integer literal; anything else is NaN.
\<close>

definition is_white_space :: "char \<Rightarrow> bool" where
  "is_white_space c \<longleftrightarrow> (of_char c :: nat) \<in> {9, 10, 11, 12, 13, 32, 160}"

definition trim :: "string \<Rightarrow> string" where
  "trim s = rev (dropWhile is_white_space (rev (dropWhile is_white_space s)))"

definition is_digit :: "char \<Rightarrow> bool" where
  "is_digit c \<longleftrightarrow> 48 \<le> (of_char c :: nat) \<and> (of_char c :: nat) \<le> 57"

definition hex_digit_value :: "char \<Rightarrow> nat option" where
  "hex_digit_value c =
     (let n = (of_char c :: nat)
      in if 48 \<le> n \<and> n \<le> 57 then Some (n - 48)
         else if 97 \<le> n \<and> n \<le> 102 then Some (n - 87)
         else if 65 \<le> n \<and> n \<le> 70 then Some (n - 55)
         else None)"

definition is_digit_in :: "nat \<Rightarrow> char \<Rightarrow> bool" where
  "is_digit_in radix c \<longleftrightarrow> (case hex_digit_value c of None \<Rightarrow> False | Some v \<Rightarrow> v < radix)"

definition digits_value :: "nat \<Rightarrow> string \<Rightarrow> nat" where
  "digits_value radix ds =
     foldl (\<lambda>acc c. radix * acc + (case hex_digit_value c of None \<Rightarrow> 0 | Some v \<Rightarrow> v)) 0 ds"

definition parse_radix_digits :: "nat \<Rightarrow> string \<Rightarrow> nat option" where
  "parse_radix_digits radix ds =
     (if ds \<noteq> [] \<and> list_all (is_digit_in radix) ds then Some (digits_value radix ds) else None)"

fun parse_non_decimal :: "string \<Rightarrow> nat option" where
  "parse_non_decimal (z # p # ds) =
     (if z \<noteq> CHR ''0'' then None
      else if p = CHR ''x'' \<or> p = CHR ''X'' then parse_radix_digits 16 ds
      else if p = CHR ''o'' \<or> p = CHR ''O'' then parse_radix_digits 8 ds
      else if p = CHR ''b'' \<or> p = CHR ''B'' then parse_radix_digits 2 ds
      else None)"
| "parse_non_decimal _ = None"

fun parse_exponent :: "string \<Rightarrow> int option" where
  "parse_exponent [] = None"
| "parse_exponent (c # cs) =
     (if c = CHR ''+'' then map_option int (parse_radix_digits 10 cs)
      else if c = CHR ''-'' then map_option (\<lambda>n. - int n) (parse_radix_digits 10 cs)
      else map_option int (parse_radix_digits 10 (c # cs)))"

definition scale10 :: "nat \<Rightarrow> int \<Rightarrow> rat" where
  "scale10 m e = (if 0 \<le> e then of_nat m * 10 ^ nat e else of_nat m / 10 ^ nat (- e))"

definition parse_unsigned_decimal :: "string \<Rightarrow> rat option" where
  "parse_unsigned_decimal s =
     (let ip = takeWhile is_digit s;
          r1 = dropWhile is_digit s;
          fp = (case r1 of [] \<Rightarrow> [] | c # r \<Rightarrow> if c = CHR ''.'' then takeWhile is_digit r else []);
          r2 = (case r1 of [] \<Rightarrow> [] | c # r \<Rightarrow> if c = CHR ''.'' then dropWhile is_digit r else r1)
      in if ip = [] \<and> fp = [] then None
         else (case r2 of
                 [] \<Rightarrow> Some (scale10 (digits_value 10 (ip @ fp)) (- int (length fp)))
               | c # r \<Rightarrow>
                   if c = CHR ''e'' \<or> c = CHR ''E''
                   then map_option (\<lambda>e. scale10 (digits_value 10 (ip @ fp)) (e - int (length fp)))
                          (parse_exponent r)
                   else None))"

definition parse_unsigned_literal :: "string \<Rightarrow> jsnum" where
  "parse_unsigned_literal s =
     (if s = ''Infinity'' then PosInf
      else case parse_unsigned_decimal s of None \<Rightarrow> NaN | Some q \<Rightarrow> Fin q)"

fun negate :: "jsnum \<Rightarrow> jsnum" where
  "negate NaN = NaN"
| "negate PosInf = NegInf"
| "negate NegInf = PosInf"
| "negate (Fin q) = Fin (- q)"

definition js_Number :: "string \<Rightarrow> jsnum" where
  "js_Number s =
     (let t = trim s
      in case t of
           [] \<Rightarrow> Fin 0
         | c # r \<Rightarrow>
             (case parse_non_decimal t of
                Some n \<Rightarrow> Fin (of_nat n)
              | None \<Rightarrow>
                  if c = CHR ''+'' then parse_unsigned_literal r
                  else if c = CHR ''-'' then negate (parse_unsigned_literal r)
                  else parse_unsigned_literal t))"

text \<open>\<^verbatim>\<open>Number(undefined)\<close> is NaN: the second segment may be missing.\<close>

definition js_Number_opt :: "string option \<Rightarrow> jsnum" where
  "js_Number_opt v = (case v of None \<Rightarrow> NaN | Some s \<Rightarrow> js_Number s)"

definition isNaN :: "jsnum \<Rightarrow> bool" where
  "isNaN n \<longleftrightarrow> n = NaN"

text \<open>\<^verbatim>\<open>Object.values(ClientLayer).includes(layer)\<close>, returning the member that was found.\<close>

definition find_layer :: "string \<Rightarrow> ClientLayer option" where
  "find_layer s = find (\<lambda>l. layer_token l = s) [DevTools, Popup, Options]"

section \<open>BaseBackgroundManager: connections (managers/baseBackgroundManager.ts)\<close>

text \<open>Reading an element of an array: \<^verbatim>\<open>undefined\<close> beyond its end, as in the destructuring
  \<^verbatim>\<open>const [layer, tabId] = port.name.split(':')\<close>.\<close>

fun element :: "'a list \<Rightarrow> nat \<Rightarrow> 'a option" where
  "element [] i = None"
| "element (x # xs) 0 = Some x"
| "element (x # xs) (Suc i) = element xs i"

definition extractPortDetails :: "Port \<Rightarrow> ConnectionOptions option" where
  "extractPortDetails port =
     (let segments = split_on CHR '':'' (port_name port);
          layer_text = element segments 0;
          tabId_text = element segments 1;
          numericTabId = js_Number_opt tabId_text
      in case Option.bind layer_text find_layer of
           None \<Rightarrow> None
         | Some ly \<Rightarrow>
             if isNaN numericTabId then None
             else Some \<lparr>layer = ly, tabId = numericTabId\<rparr>)"

text \<open>
  The state of the hub: the two managers it owns, and what the host keeps for it, namely the
  \<^verbatim>\<open>onMessage\<close> and \<^verbatim>\<open>onDisconnect\<close> listeners attached to each port (a disconnect listener is the
  closure over \<^verbatim>\<open>connectionDetails\<close>), and the calls made on the logger.
\<close>

record Hub =
  connectionManager :: Connections
  hub_listenerManager :: ListenerManager
  onMessage :: "Port list"
  onDisconnect :: "(Port \<times> ConnectionOptions) list"
  hub_log :: "(LogLevel \<times> string \<times> LogDetails) list"

definition new_Hub :: Hub where
  "new_Hub = \<lparr>connectionManager = [], hub_listenerManager = new_ListenerManager,
              onMessage = [], onDisconnect = [], hub_log = []\<rparr>"

definition handleConnection :: "Port \<Rightarrow> Hub \<Rightarrow> Hub" where
  "handleConnection port this =
     (case extractPortDetails port of
        None \<Rightarrow>
          this\<lparr>hub_log := hub_log this @
            [(Error, ''Invalid port data or format, expected {layer}:{tabId}'', PortDetails port)]\<rparr>
      | Some connectionDetails \<Rightarrow>
          this\<lparr>connectionManager := addConnection connectionDetails port (connectionManager this),
               hub_log := hub_log this @
                 [(Info, ''Port connected'', OptionsDetails connectionDetails)],
               onMessage := onMessage this @ [port],
               onDisconnect := onDisconnect this @ [(port, connectionDetails)]\<rparr>)"

definition hub_handlePortDisconnect :: "ConnectionOptions \<Rightarrow> Hub \<Rightarrow> Hub" where
  "hub_handlePortDisconnect connectionOptions this =
     this\<lparr>hub_log := hub_log this @
            [(Info, ''Port disconnected'', OptionsDetails connectionOptions)],
          connectionManager := removeConnection connectionOptions (connectionManager this)\<rparr>"

text \<open>The host fires the disconnect event of a port: every listener attached to that port
  runs, in the order of attachment.\<close>

primrec fire_disconnect :: "Port \<Rightarrow> (Port \<times> ConnectionOptions) list \<Rightarrow> Hub \<Rightarrow> Hub" where
  "fire_disconnect port [] this = this"
| "fire_disconnect port (h # hs) this =
     fire_disconnect port hs
       (if fst h = port then hub_handlePortDisconnect (snd h) this else this)"

definition port_disconnects :: "Port \<Rightarrow> Hub \<Rightarrow> Hub" where
  "port_disconnects port this = fire_disconnect port (onDisconnect this) this"



section \<open>BaseClientManager (src/managers/baseClientManager.ts)\<close>

text \<open>
  The template literal \<^verbatim>\<open>`${this.layer}:${tabId}`\<close>. The identifier of a tab is an integer of
  the host (\<^verbatim>\<open>chrome.tabs.Tab.id\<close>); its string form is its decimal notation.
\<close>

fun nat_to_string :: "nat \<Rightarrow> string" where
  "nat_to_string n =
     (if n < 10 then [char_of (48 + n)]
      else nat_to_string (n div 10) @ [char_of (48 + n mod 10)])"

definition int_to_string :: "int \<Rightarrow> string" where
  "int_to_string i = (if i < 0 then CHR ''-'' # nat_to_string (nat (- i)) else nat_to_string (nat i))"

definition channel_name :: "ClientLayer \<Rightarrow> int \<Rightarrow> string" where
  "channel_name ly tid = layer_token ly @ '':'' @ int_to_string tid"

text \<open>
  The fields of the class, and what the host keeps for the manager: the number of
  \<^verbatim>\<open>chrome.tabs.query\<close> callbacks it has been given and has not called yet, and the ports that
  \<^verbatim>\<open>chrome.runtime.connect\<close> has returned to it, in order. Each of these ports carries the
  manager's \<^verbatim>\<open>onMessage\<close> and \<^verbatim>\<open>onDisconnect\<close> listeners.
\<close>

record 'd Client =
  client_layer :: ClientLayer
  port :: "Port option"
  listenerManager :: ListenerManager
  pendingMessages :: "'d BaseMessage list"
  queries_in_flight :: nat
  opened :: "Port list"

definition new_Client :: "ClientLayer \<Rightarrow> 'd Client" where
  "new_Client ly =
     \<lparr>client_layer = ly, port = None, listenerManager = new_ListenerManager,
      pendingMessages = [], queries_in_flight = 0, opened = []\<rparr>"

definition initPort :: "'d Client \<Rightarrow> 'd Effect list \<times> 'd Client" where
  "initPort this =
     (case port this of
        Some p \<Rightarrow> ([], this)
      | None \<Rightarrow> ([TabsQuery], this\<lparr>queries_in_flight := queries_in_flight this + 1\<rparr>))"

definition client_sendMessage :: "'d BaseMessage \<Rightarrow> 'd Client \<Rightarrow> 'd Effect list \<times> 'd Client" where
  "client_sendMessage message this =
     (case port this of
        None \<Rightarrow> initPort (this\<lparr>pendingMessages := pendingMessages this @ [message]\<rparr>)
      | Some p \<Rightarrow> ([PostMessage p message], this))"

definition flushPendingMessages :: "'d Client \<Rightarrow> 'd Effect list \<times> 'd Client" where
  "flushPendingMessages this =
     (case port this of
        None \<Rightarrow> ([], this)
      | Some p \<Rightarrow> (map (PostMessage p) (pendingMessages this), this\<lparr>pendingMessages := []\<rparr>))"

text \<open>
  The callback given to \<^verbatim>\<open>chrome.tabs.query\<close>, called with the tabs found (each with its
  optional id). \<^verbatim>\<open>!tabId\<close> holds for a missing id and for the id 0.
\<close>

definition tabs_query_callback :: "int option list \<Rightarrow> 'd Client \<Rightarrow> 'd Effect list \<times> 'd Client" where
  "tabs_query_callback tabs this =
     (case (case tabs of [] \<Rightarrow> None | t # _ \<Rightarrow> t) of
        None \<Rightarrow>
          ([Log Error (''No tabs found for '' @ layer_token (client_layer this) @ '' manager'')
              NoDetails], this)
      | Some tid \<Rightarrow>
          if tid = 0
          then ([Log Error (''No tabs found for '' @ layer_token (client_layer this) @ '' manager'')
                   NoDetails], this)
          else
            (let name = channel_name (client_layer this) tid;
                 p = \<lparr>port_id = length (opened this), port_name = name\<rparr>;
                 this1 = this\<lparr>port := Some p, opened := opened this @ [p]\<rparr>;
                 flushed = flushPendingMessages this1
             in ([Connect name,
                  Log Info (''Manager for '' @ layer_token (client_layer this) @ '' initialized'')
                    (TabIdDetails tid)] @ fst flushed,
                 snd flushed)))"

definition handleIncomingMessage ::
  "nat \<Rightarrow> 'd Behaviour \<Rightarrow> 'd BaseMessage \<Rightarrow> 'd Client
     \<Rightarrow> ('d Effect list \<times> (exn + unit) \<times> 'd Client) option" where
  "handleIncomingMessage n run message this =
     (case port this of
        None \<Rightarrow> Some ([], Inr (), this)
      | Some p \<Rightarrow>
          (case notify n run message (Some p) (listenerManager this) of
             None \<Rightarrow> None
           | Some (effs, r, lm) \<Rightarrow> Some (effs, r, this\<lparr>listenerManager := lm\<rparr>)))"

definition handlePortDisconnect :: "Port \<Rightarrow> 'd Client \<Rightarrow> 'd Effect list \<times> 'd Client" where
  "handlePortDisconnect p this =
     ([Log Info ''Port disconnected'' (PortNameDetails (port_name p))],
      this\<lparr>listenerManager := clear (listenerManager this), port := None\<rparr>)"

text \<open>
  What can happen to a client manager: a call of its public interface, or an event of the
  host. A host event can only occur when the host holds the listener for it: a query
  callback only while one is in flight, a port event only on a port that was opened. A step
  is \<open>None\<close> when the event cannot occur, and also when the dispatch of an incoming
  message does not return within the bound \<open>n\<close>.
\<close>

datatype 'd ClientEvent =
    SendMessage "'d BaseMessage"
  | SubscribeTo string Listener
  | CallUnsubscribe Unsubscribe
  | QueryResolves "int option list"
  | PortMessage Port "'d BaseMessage"
  | PortDisconnects Port

fun client_step ::
  "nat \<Rightarrow> 'd Behaviour \<Rightarrow> 'd ClientEvent \<Rightarrow> 'd Client \<Rightarrow> ('d Effect list \<times> 'd Client) option" where
  "client_step n run (SendMessage m) this = Some (client_sendMessage m this)"
| "client_step n run (SubscribeTo type listener) this =
     Some ([], this\<lparr>listenerManager := snd (subscribe type listener (listenerManager this))\<rparr>)"
| "client_step n run (CallUnsubscribe u) this =
     Some ([], this\<lparr>listenerManager := unsubscribe u (listenerManager this)\<rparr>)"
| "client_step n run (QueryResolves tabs) this =
     (if queries_in_flight this = 0 then None
      else Some (tabs_query_callback tabs
                   (this\<lparr>queries_in_flight := queries_in_flight this - 1\<rparr>)))"
| "client_step n run (PortMessage p m) this =
     (if p \<in> set (opened this)
      then (case handleIncomingMessage n run m this of
              None \<Rightarrow> None
            | Some (effs, r, this1) \<Rightarrow> Some (effs, this1))
      else None)"
| "client_step n run (PortDisconnects p) this =
     (if p \<in> set (opened this) then Some (handlePortDisconnect p this) else None)"

fun client_run ::
  "nat \<Rightarrow> 'd Behaviour \<Rightarrow> 'd ClientEvent list \<Rightarrow> 'd Client \<Rightarrow> ('d Effect list \<times> 'd Client) option" where
  "client_run n run [] this = Some ([], this)"
| "client_run n run (e # es) this =
     (case client_step n run e this of
        None \<Rightarrow> None
      | Some (effs, this1) \<Rightarrow>
          (case client_run n run es this1 of
             None \<Rightarrow> None
           | Some (effs', this2) \<Rightarrow> Some (effs @ effs', this2)))"

text \<open>An event that opens a channel: a query callback whose first tab has a usable id.\<close>

fun usable_tab :: "int option list \<Rightarrow> bool" where
  "usable_tab (Some tid # _) = (tid \<noteq> 0)"
| "usable_tab _ = False"

fun establishes :: "'d ClientEvent \<Rightarrow> bool" where
  "establishes (QueryResolves tabs) = usable_tab tabs"
| "establishes _ = False"

fun sent_of :: "'d ClientEvent \<Rightarrow> 'd BaseMessage list" where
  "sent_of (SendMessage m) = [m]"
| "sent_of _ = []"

fun posts_of :: "'d Effect \<Rightarrow> (Port \<times> 'd BaseMessage) list" where
  "posts_of (PostMessage p m) = [(p, m)]"
| "posts_of _ = []"

fun is_connect :: "'d Effect \<Rightarrow> bool" where
  "is_connect (Connect name) = True"
| "is_connect _ = False"



section \<open>The wire contract as the specification words it\<close>


section \<open>Reachable states of a ListenerManager\<close>

text \<open>
  The states a \<^verbatim>\<open>ListenerManager\<close> reaches through its public interface, together with the
  unsubscribe closures it has handed out so far (\<^verbatim>\<open>notify\<close> assigns nothing).
\<close>

inductive reachable :: "ListenerManager \<Rightarrow> Unsubscribe list \<Rightarrow> bool" where
  reach_new: "reachable new_ListenerManager []"
| reach_subscribe:
    "reachable this us \<Longrightarrow>
     reachable (snd (subscribe type listener this)) (fst (subscribe type listener this) # us)"
| reach_unsubscribe:
    "reachable this us \<Longrightarrow> u \<in> set us \<Longrightarrow> reachable (unsubscribe u this) us"
| reach_clear:
    "reachable this us \<Longrightarrow> reachable (clear this) us"

text \<open>
  What holds in every reachable state: a type has one entry, an entry points to an existing,
  non-empty set, two types never share a set, and the set a closure has captured can only be
  the entry of the closure's own type.
\<close>

definition lm_invariant :: "ListenerManager \<Rightarrow> Unsubscribe list \<Rightarrow> bool" where
  "lm_invariant this us \<longleftrightarrow>
     distinct (map fst (listeners this))
     \<and> (\<forall>t a. (t, a) \<in> set (listeners this) \<longrightarrow> a < length (sets this) \<and> set_values (sets this ! a) \<noteq> [])
     \<and> (\<forall>t t' a. (t, a) \<in> set (listeners this) \<longrightarrow> (t', a) \<in> set (listeners this) \<longrightarrow> t = t')
     \<and> (\<forall>u t. u \<in> set us \<longrightarrow> captured_listeners u < length (sets this)
            \<and> ((t, captured_listeners u) \<in> set (listeners this) \<longrightarrow> t = captured_type u))"

section \<open>Observations on a client manager\<close>

text \<open>The \<^verbatim>\<open>postMessage\<close> calls among the effects, in order.\<close>

definition posts :: "'d Effect list \<Rightarrow> (Port \<times> 'd BaseMessage) list" where
  "posts effs = concat (map posts_of effs)"

text \<open>Messages wait in the queue only while there is no channel handle.\<close>

definition queue_invariant :: "'d Client \<Rightarrow> bool" where
  "queue_invariant this \<longleftrightarrow> (port this = None \<or> pendingMessages this = [])"

section \<open>What extractPortDetails reads in a name\<close>

text \<open>
  The two segments that \<^verbatim>\<open>extractPortDetails\<close> reads, and its test
  \<^verbatim>\<open>!Object.values(ClientLayer).includes(layer) || isNaN(numericTabId)\<close> as a predicate on the
  name.
\<close>

definition role_segment :: "string \<Rightarrow> string option" where
  "role_segment name = element (split_on CHR '':'' name) 0"

definition target_segment :: "string \<Rightarrow> string option" where
  "target_segment name = element (split_on CHR '':'' name) 1"

definition rejected_name :: "string \<Rightarrow> bool" where
  "rejected_name name \<longleftrightarrow>
     Option.bind (role_segment name) find_layer = None
     \<or> isNaN (js_Number_opt (target_segment name))"



section \<open>Reachable states of the hub\<close>

text \<open>
  The registry of the hub changes only when a port connects or disconnects; subscriptions and
  sends leave it as it is.
\<close>

inductive hub_reachable :: "Hub \<Rightarrow> bool" where
  hub_new: "hub_reachable new_Hub"
| hub_connect: "hub_reachable h \<Longrightarrow> hub_reachable (handleConnection p h)"
| hub_disconnect: "hub_reachable h \<Longrightarrow> hub_reachable (port_disconnects p h)"
| hub_subscribe:
    "hub_reachable h \<Longrightarrow>
     hub_reachable (h\<lparr>hub_listenerManager := snd (subscribe type listener (hub_listenerManager h))\<rparr>)"
| hub_unsubscribe:
    "hub_reachable h \<Longrightarrow>
     hub_reachable (h\<lparr>hub_listenerManager := unsubscribe u (hub_listenerManager h)\<rparr>)"

text \<open>Every registered handle sits in the slot that its own name gives.\<close>

definition slots_by_name :: "Connections \<Rightarrow> bool" where
  "slots_by_name c \<longleftrightarrow>
     (\<forall>d p. getConnection d c = Some p \<longrightarrow> extractPortDetails p = Some d)"

section \<open>Properties\<close>

declare nat_to_string.simps [simp del]

lemma nat_to_string_7: "nat_to_string 7 = ''7''"
  by code_simp

subsection \<open>The cases of the dispatch\<close>

lemma exec_Notify:
  "exec (Suc n) run (Notify m sp) this =
     (case map_of (listeners this) (msg_type m) of
        None \<Rightarrow>
          Some ([Log Warn ''Not listened port event''
                   (NotListened (map_option port_name sp) (msg_type m))],
                Inr (), this)
      | Some a \<Rightarrow> exec n run (ForOf m sp a 0) this)"
  by simp

lemma exec_ForOf:
  "exec (Suc n) run (ForOf m sp a i) this =
     (if length (sets this ! a) \<le> i then Some ([], Inr (), this)
      else case sets this ! a ! i of
             None \<Rightarrow> exec n run (ForOf m sp a (Suc i)) this
           | Some listener \<Rightarrow>
               (case exec n run (CallListener listener m sp) this of
                  None \<Rightarrow> None
                | Some body \<Rightarrow>
                    (case try_catch body
                            (\<lambda>error s.
                               ([Log Error ''Listener error:'' (Thrown error)], Inr (), s)) of
                       (effs, Inl e, this1) \<Rightarrow> Some (effs, Inl e, this1)
                     | (effs, Inr u, this1) \<Rightarrow>
                         (case exec n run (ForOf m sp a (Suc i)) this1 of
                            None \<Rightarrow> None
                          | Some (effs', r, this2) \<Rightarrow> Some (effs @ effs', r, this2)))))"
  by simp

lemma exec_CallListener:
  "exec (Suc n) run (CallListener l m sp) this =
     (case exec n run (Perform (fst (run l m sp this))) this of
        None \<Rightarrow> None
      | Some (effs, Inl e, this1) \<Rightarrow> Some (Invoke l m sp # effs, Inl e, this1)
      | Some (effs, Inr u, this1) \<Rightarrow>
          Some (Invoke l m sp # effs,
                (case snd (run l m sp this) of Some e \<Rightarrow> Inl e | None \<Rightarrow> Inr ()),
                this1))"
  by simp

lemma exec_Perform:
  "exec (Suc n) run (Perform []) this = Some ([], Inr (), this)"
  "exec (Suc n) run (Perform (Subscribes t l # rest)) this =
     exec n run (Perform rest) (snd (subscribe t l this))"
  "exec (Suc n) run (Perform (Unsubscribes u # rest)) this =
     exec n run (Perform rest) (unsubscribe u this)"
  "exec (Suc n) run (Perform (Clears # rest)) this = exec n run (Perform rest) (clear this)"
  "exec (Suc n) run (Perform (Notifies m sp # rest)) this =
     (case exec n run (Notify m sp) this of
        None \<Rightarrow> None
      | Some (effs, Inl e, this1) \<Rightarrow> Some (effs, Inl e, this1)
      | Some (effs, Inr u, this1) \<Rightarrow>
          (case exec n run (Perform rest) this1 of
             None \<Rightarrow> None
           | Some (effs', r, this2) \<Rightarrow> Some (effs @ effs', r, this2)))"
  by simp_all

declare exec.simps(2) [simp del]

subsection \<open>C4: removing both connections of a target\<close>

text \<open>
  Claim C4: \<^verbatim>\<open>removeConnection\<close> deletes the role slot and, when the per-target record becomes
  empty, the record; in particular after adding (5, popup) and (5, devtools) and removing
  both, the registry no longer contains key 5. On the code the record of target 5 is created
  with all three role keys (each \<^verbatim>\<open>undefined\<close>), so after the two removals it still has the key
  \<^verbatim>\<open>options\<close>, \<^verbatim>\<open>Object.keys\<close> is not empty, and key 5 stays in the registry.
\<close>

theorem removeConnection_both_keeps_target:
  "getAllConnections
     (removeConnection \<lparr>layer = DevTools, tabId = Fin 5\<rparr>
       (removeConnection \<lparr>layer = Popup, tabId = Fin 5\<rparr>
         (addConnection \<lparr>layer = DevTools, tabId = Fin 5\<rparr>
            \<lparr>port_id = 2, port_name = ''devtools:5''\<rparr>
           (addConnection \<lparr>layer = Popup, tabId = Fin 5\<rparr>
              \<lparr>port_id = 1, port_name = ''popup:5''\<rparr> []))))
   = [(Fin 5, [(Options, None)])]"
  by (simp add: getAllConnections_def removeConnection_def addConnection_def empty_layers_def)

subsection \<open>C3: calling an unsubscribe closure again\<close>

text \<open>
  Claim C3: invoking the closure returned by \<^verbatim>\<open>subscribe\<close> a second time leaves the registry
  unchanged, whatever happened in between. On the code the closure keeps the \<^verbatim>\<open>Set\<close> it was
  created with: once that set is empty and detached, and a new listener has been subscribed
  to the same type (in a new \<^verbatim>\<open>Set\<close>), the second call finds its old set empty and deletes the
  type from the map, which drops the new listener.
\<close>

theorem stale_unsubscribe_drops_new_listener:
  "(let (u, lm1) = subscribe ''t'' 1 new_ListenerManager;
        lm2 = unsubscribe u lm1;
        (u', lm3) = subscribe ''t'' 2 lm2;
        lm4 = unsubscribe u lm3
    in registry lm3 = [(''t'', [2])] \<and> registry lm4 = [] \<and> subscribers lm4 ''t'' = [])"
  by (simp add: subscribe_def unsubscribe_def new_ListenerManager_def registry_def
        subscribers_def set_add_def set_delete_def set_size_def Let_def)

subsection \<open>C5: sends while an establishment is in flight\<close>

text \<open>
  Claim C5: while one channel establishment is in flight, a further \<^verbatim>\<open>sendMessage\<close> never
  starts a second one, and at most one channel is opened. On the code \<^verbatim>\<open>initPort\<close> only
  tests \<^verbatim>\<open>this.port\<close>, which is still \<^verbatim>\<open>null\<close> during the query: two sends start two queries, and
  when both callbacks run, each opens a channel; the second replaces the handle of the first.
\<close>

theorem two_sends_two_establishments:
  "(case client_run n run [SendMessage m1, SendMessage m2] (new_Client Popup) of
      None \<Rightarrow> False
    | Some (effs1, s1) \<Rightarrow>
        effs1 = [TabsQuery, TabsQuery] \<and> queries_in_flight s1 = 2 \<and>
        (case client_run n run [QueryResolves [Some 7], QueryResolves [Some 7]] s1 of
           None \<Rightarrow> False
         | Some (effs2, s2) \<Rightarrow>
             filter is_connect effs2 = [Connect ''popup:7'', Connect ''popup:7''] \<and>
             map port_id (opened s2) = [0, 1] \<and>
             map_option port_id (port s2) = Some 1))"
  by (simp add: client_sendMessage_def initPort_def new_Client_def tabs_query_callback_def
        flushPendingMessages_def channel_name_def int_to_string_def Let_def nat_to_string_7)

subsection \<open>C10: a replaced port disconnects\<close>

lemma getConnection_addConnection_same:
  "getConnection d (addConnection d p c) = Some p"
  by (auto simp: getConnection_def addConnection_def Let_def update_conv' split: option.splits)

lemma getConnection_removeConnection_same:
  "getConnection d (removeConnection d c) = None"
  by (auto simp: getConnection_def removeConnection_def Let_def update_conv' delete_conv'
           split: option.splits)

lemma getConnection_removeConnection_None:
  "getConnection d c = None \<Longrightarrow> getConnection d (removeConnection d' c) = None"
  by (auto simp: getConnection_def removeConnection_def Let_def update_conv' delete_conv'
           split: option.splits if_splits)

lemma fire_disconnect_keeps_absent:
  "getConnection d (connectionManager h) = None \<Longrightarrow>
   getConnection d (connectionManager (fire_disconnect p hs h)) = None"
  by (induction hs arbitrary: h)
     (auto simp: hub_handlePortDisconnect_def getConnection_removeConnection_None)

lemma fire_disconnect_removes:
  "(p, d) \<in> set hs \<Longrightarrow> getConnection d (connectionManager (fire_disconnect p hs h)) = None"
proof (induction hs arbitrary: h)
  case Nil
  then show ?case by simp
next
  case (Cons x hs)
  show ?case
  proof (cases "x = (p, d)")
    case True
    then show ?thesis
      by (simp add: hub_handlePortDisconnect_def fire_disconnect_keeps_absent
            getConnection_removeConnection_same)
  next
    case False
    with Cons.prems have "(p, d) \<in> set hs" by simp
    then show ?thesis using Cons.IH by simp
  qed
qed

text \<open>
  Claim C10: when a second port registers under the (targetId, role) key of a first port that
  is still alive, the disconnect listener of the first port stays attached, and when the first
  port disconnects, the entry of the key is removed although the second port holds it.
\<close>

theorem stale_disconnect_evicts_live_handle:
  assumes "extractPortDetails p1 = Some d" and "extractPortDetails p2 = Some d"
    and "p1 \<noteq> p2"
  shows "getConnection d (connectionManager (handleConnection p2 (handleConnection p1 h))) = Some p2
       \<and> (p1, d) \<in> set (onDisconnect (handleConnection p2 (handleConnection p1 h)))
       \<and> getConnection d (connectionManager
            (port_disconnects p1 (handleConnection p2 (handleConnection p1 h)))) = None"
  using assms
  by (simp add: handleConnection_def getConnection_addConnection_same port_disconnects_def
        fire_disconnect_removes)

theorem stale_disconnect_witness:
  "(let p1 = \<lparr>port_id = 1, port_name = ''popup:5''\<rparr>; p2 = \<lparr>port_id = 2, port_name = ''popup:5''\<rparr>;
        d = \<lparr>layer = Popup, tabId = Fin 5\<rparr>;
        h = handleConnection p2 (handleConnection p1 new_Hub)
    in extractPortDetails p1 = Some d \<and> extractPortDetails p2 = Some d \<and> p1 \<noteq> p2
       \<and> getConnection d (connectionManager h) = Some p2
       \<and> getConnection d (connectionManager (port_disconnects p1 h)) = None)"
proof -
  have a: "extractPortDetails \<lparr>port_id = 1, port_name = ''popup:5''\<rparr> = Some \<lparr>layer = Popup, tabId = Fin 5\<rparr>"
    by code_simp
  have b: "extractPortDetails \<lparr>port_id = 2, port_name = ''popup:5''\<rparr> = Some \<lparr>layer = Popup, tabId = Fin 5\<rparr>"
    by code_simp
  have c: "\<lparr>port_id = 1, port_name = ''popup:5''\<rparr> \<noteq> \<lparr>port_id = 2, port_name = ''popup:5''\<rparr>"
    by simp
  show ?thesis
    using stale_disconnect_evicts_live_handle [OF a b c, of new_Hub] a b c
    by (simp add: Let_def)
qed

subsection \<open>C7: the pending-message queue\<close>

lemma posts_simps [simp]:
  "posts [] = []"
  "posts (PostMessage p m # effs) = (p, m) # posts effs"
  "posts (Log lvl t d # effs) = posts effs"
  "posts (Invoke l m sp # effs) = posts effs"
  "posts (TabsQuery # effs) = posts effs"
  "posts (Connect n # effs) = posts effs"
  "posts (effs @ effs') = posts effs @ posts effs'"
  by (simp_all add: posts_def)

lemma posts_map_PostMessage [simp]: "posts (map (PostMessage p) ms) = map (Pair p) ms"
  by (induction ms) simp_all

lemma posts_exec: "exec n run call this = Some (effs, r, s) \<Longrightarrow> posts effs = []"
proof (induction n arbitrary: call this effs r s)
  case 0
  then show ?case by simp
next
  case (Suc n)
  show ?case
  proof (cases call)
    case (Notify m sp)
    with Suc.prems Suc.IH show ?thesis
      by (auto simp: exec_Notify split: option.splits)
  next
    case (ForOf m sp a i)
    with Suc.prems Suc.IH show ?thesis
      by (fastforce simp: exec_ForOf try_catch_def
            split: option.splits if_splits prod.splits sum.splits)
  next
    case (CallListener l m sp)
    with Suc.prems Suc.IH show ?thesis
      by (fastforce simp: exec_CallListener split: option.splits prod.splits sum.splits)
  next
    case (Perform acts)
    show ?thesis
    proof (cases acts)
      case Nil
      with Suc.prems Perform show ?thesis by (simp add: exec_Perform)
    next
      case (Cons act rest)
      with Suc.prems Suc.IH Perform show ?thesis
        by (cases act)
           (fastforce simp: exec_Perform split: option.splits prod.splits sum.splits)+
    qed
  qed
qed

lemma posts_notify: "notify n run m sp lm = Some (effs, r, lm') \<Longrightarrow> posts effs = []"
  unfolding notify_def by (rule posts_exec)

lemma client_step_no_channel:
  assumes "port this = None" and "\<not> establishes e"
    and "client_step n run e this = Some (effs, this1)"
  shows "port this1 = None \<and> pendingMessages this1 = pendingMessages this @ sent_of e
         \<and> posts effs = []"
proof (cases e)
  case (QueryResolves tabs)
  with assms show ?thesis
    by (cases tabs rule: usable_tab.cases)
       (auto simp: tabs_query_callback_def split: if_splits)
qed (use assms in \<open>auto simp: client_sendMessage_def initPort_def handleIncomingMessage_def
        handlePortDisconnect_def split: if_splits option.splits dest: posts_notify\<close>)

lemma client_run_no_channel:
  assumes "port this = None" and "\<forall>e \<in> set es. \<not> establishes e"
    and "client_run n run es this = Some (effs, this1)"
  shows "port this1 = None \<and> pendingMessages this1 = pendingMessages this @ concat (map sent_of es)
         \<and> posts effs = []"
  using assms
proof (induction es arbitrary: this effs)
  case Nil
  then show ?case by simp
next
  case (Cons e es)
  from Cons.prems(3) obtain ea sa eb where
    st: "client_step n run e this = Some (ea, sa)" and
    rn: "client_run n run es sa = Some (eb, this1)" and
    ef: "effs = ea @ eb"
    by (auto split: option.splits prod.splits)
  from Cons.prems have ne: "\<not> establishes e" and nes: "\<forall>e \<in> set es. \<not> establishes e" by simp_all
  from client_step_no_channel [OF Cons.prems(1) ne st]
  have a: "port sa = None" "pendingMessages sa = pendingMessages this @ sent_of e" "posts ea = []"
    by simp_all
  from Cons.IH [OF a(1) nes rn] a ef show ?case by simp
qed

lemma establish_flushes:
  assumes "port this = None" and "usable_tab tabs"
    and "client_step n run (QueryResolves tabs) this = Some (effs, this1)"
  shows "\<exists>p. port this1 = Some p \<and> posts effs = map (Pair p) (pendingMessages this)"
    and "pendingMessages this1 = []"
proof -
  obtain tid rest where t: "tabs = Some tid # rest" "tid \<noteq> 0"
    using assms(2) by (cases tabs rule: usable_tab.cases) auto
  show "\<exists>p. port this1 = Some p \<and> posts effs = map (Pair p) (pendingMessages this)"
    using assms(3) t
    by (auto simp: tabs_query_callback_def flushPendingMessages_def Let_def split: if_splits)
  show "pendingMessages this1 = []"
    using assms(3) t
    by (auto simp: tabs_query_callback_def flushPendingMessages_def Let_def split: if_splits)
qed

lemma tabs_query_callback_conserves:
  assumes "queue_invariant this" and "tabs_query_callback tabs this = (effs, this1)"
  shows "map snd (posts effs) @ pendingMessages this1 = pendingMessages this
         \<and> queue_invariant this1"
proof (cases "usable_tab tabs")
  case True
  then obtain tid rest where t: "tabs = Some tid # rest" "tid \<noteq> 0"
    by (cases tabs rule: usable_tab.cases) auto
  with assms show ?thesis
    by (auto simp: tabs_query_callback_def flushPendingMessages_def Let_def queue_invariant_def
          comp_def)
next
  case False
  with assms show ?thesis
    by (cases tabs rule: usable_tab.cases)
       (auto simp: tabs_query_callback_def queue_invariant_def)
qed

lemma client_step_conserves:
  assumes "queue_invariant this" and "client_step n run e this = Some (effs, this1)"
  shows "map snd (posts effs) @ pendingMessages this1 = pendingMessages this @ sent_of e
         \<and> queue_invariant this1"
proof (cases e)
  case (QueryResolves tabs)
  have "queue_invariant (this\<lparr>queries_in_flight := queries_in_flight this - 1\<rparr>)"
    using assms(1) by (simp add: queue_invariant_def)
  from tabs_query_callback_conserves [OF this, of tabs effs this1] assms(2) QueryResolves
  show ?thesis by (auto split: if_splits)
qed (use assms in \<open>auto simp: client_sendMessage_def initPort_def handleIncomingMessage_def
        handlePortDisconnect_def queue_invariant_def split: if_splits option.splits
        dest: posts_notify\<close>)

lemma client_run_conserves:
  assumes "queue_invariant this" and "client_run n run es this = Some (effs, this1)"
  shows "map snd (posts effs) @ pendingMessages this1
           = pendingMessages this @ concat (map sent_of es)
         \<and> queue_invariant this1"
  using assms
proof (induction es arbitrary: this effs)
  case Nil
  then show ?case by simp
next
  case (Cons e es)
  from Cons.prems(2) obtain ea sa eb where
    st: "client_step n run e this = Some (ea, sa)" and
    rn: "client_run n run es sa = Some (eb, this1)" and
    ef: "effs = ea @ eb"
    by (auto split: option.splits prod.splits)
  from client_step_conserves [OF Cons.prems(1) st]
  have a: "map snd (posts ea) @ pendingMessages sa = pendingMessages this @ sent_of e"
    and b: "queue_invariant sa" by simp_all
  from Cons.IH [OF b rn]
  have c: "map snd (posts eb) @ pendingMessages this1 = pendingMessages sa @ concat (map sent_of es)"
    and d: "queue_invariant this1" by simp_all
  have "map snd (posts effs) @ pendingMessages this1
        = map snd (posts ea) @ (map snd (posts eb) @ pendingMessages this1)"
    by (simp add: ef)
  also have "\<dots> = (map snd (posts ea) @ pendingMessages sa) @ concat (map sent_of es)"
    by (simp add: c)
  also have "\<dots> = pendingMessages this @ concat (map sent_of (e # es))"
    by (simp add: a)
  finally show ?case using d by simp
qed

text \<open>
  Claim C7: the messages sent while no channel handle exists (whatever else happens
  meanwhile, as long as no channel is opened) are posted on the channel when it becomes
  available, exactly those, once each and in the order they were sent; the queue is then
  empty and nothing is replayed: in any continuation the messages posted, followed by the
  ones still queued, are exactly the messages sent in that continuation; and a send after
  establishment posts at once and leaves the state (so the queue) unchanged.
\<close>

theorem pending_queue_flushed_once_in_order:
  assumes "port this = None" and "pendingMessages this = []"
    and "\<forall>e \<in> set es. \<not> establishes e"
    and "client_run n run es this = Some (effs1, this1)"
    and "usable_tab tabs"
    and "client_step n run (QueryResolves tabs) this1 = Some (effs2, this2)"
  shows "posts effs1 = []
       \<and> (\<exists>p. port this2 = Some p
              \<and> posts effs2 = map (Pair p) (concat (map sent_of es))
              \<and> (\<forall>m. client_sendMessage m this2 = ([PostMessage p m], this2)))
       \<and> length (posts effs2) = length (concat (map sent_of es))
       \<and> pendingMessages this2 = []
       \<and> (\<forall>es' effs3 this3. client_run n run es' this2 = Some (effs3, this3) \<longrightarrow>
             map snd (posts effs3) @ pendingMessages this3 = concat (map sent_of es'))"
proof -
  from client_run_no_channel [OF assms(1,3,4)] assms(2)
  have a: "port this1 = None" "pendingMessages this1 = concat (map sent_of es)" "posts effs1 = []"
    by simp_all
  from establish_flushes [OF a(1) assms(5,6)] a(2)
  obtain p where p: "port this2 = Some p" "posts effs2 = map (Pair p) (concat (map sent_of es))"
    and q: "pendingMessages this2 = []"
    by auto
  have inv: "queue_invariant this2" using q by (simp add: queue_invariant_def)
  have later: "map snd (posts effs3) @ pendingMessages this3 = concat (map sent_of es')"
    if "client_run n run es' this2 = Some (effs3, this3)" for es' effs3 this3
    using client_run_conserves [OF inv that] q by simp
  have send: "client_sendMessage m this2 = ([PostMessage p m], this2)" for m
    using p(1) by (simp add: client_sendMessage_def)
  show ?thesis using a(3) p q later send by auto
qed

theorem pending_queue_flushed_once_in_order_witness:
  "(let a = BaseMessage ''a'' (1::nat); b = BaseMessage ''b'' (2::nat);
        c = BaseMessage ''c'' (3::nat); d = BaseMessage ''d'' (4::nat);
        es = [SendMessage a, SendMessage b, SendMessage c];
        R = (\<lambda>l m sp lm. ([], None))
    in \<exists>effs1 this1 effs2 this2 p.
         port (new_Client Popup :: nat Client) = None
         \<and> pendingMessages (new_Client Popup :: nat Client) = []
         \<and> list_all (\<lambda>e. \<not> establishes e) es
         \<and> client_run 5 R es (new_Client Popup) = Some (effs1, this1)
         \<and> usable_tab [Some 7]
         \<and> client_step 5 R (QueryResolves [Some 7]) this1 = Some (effs2, this2)
         \<and> port this2 = Some p
         \<and> posts effs2 = [(p, a), (p, b), (p, c)]
         \<and> pendingMessages this2 = []
         \<and> client_sendMessage d this2 = ([PostMessage p d], this2))"
proof -
  let ?R = "(\<lambda>l m sp lm. ([], None)) :: nat Behaviour"
  let ?a = "BaseMessage ''a'' (1::nat)"
  let ?b = "BaseMessage ''b'' (2::nat)"
  let ?c = "BaseMessage ''c'' (3::nat)"
  let ?d = "BaseMessage ''d'' (4::nat)"
  let ?es = "[SendMessage ?a, SendMessage ?b, SendMessage ?c]"
  let ?P = "\<lparr>port_id = 0, port_name = ''popup:7''\<rparr>"
  let ?S1 = "\<lparr>client_layer = Popup, port = None, listenerManager = new_ListenerManager,
              pendingMessages = [?a, ?b, ?c], queries_in_flight = 3, opened = []\<rparr>"
  let ?S2 = "\<lparr>client_layer = Popup, port = Some ?P, listenerManager = new_ListenerManager,
              pendingMessages = ([] :: nat BaseMessage list),
              queries_in_flight = 2, opened = [?P]\<rparr>"
  let ?E2 = "[Connect ''popup:7'', Log Info ''Manager for popup initialized'' (TabIdDetails 7),
              PostMessage ?P ?a, PostMessage ?P ?b, PostMessage ?P ?c]"
  have h1: "port (new_Client Popup :: nat Client) = None"
    by (simp add: new_Client_def)
  have h2: "pendingMessages (new_Client Popup :: nat Client) = []"
    by (simp add: new_Client_def)
  have h3: "\<forall>e \<in> set ?es. \<not> establishes e" by simp
  have h4: "client_run 5 ?R ?es (new_Client Popup) = Some ([TabsQuery, TabsQuery, TabsQuery], ?S1)"
    by (simp add: client_sendMessage_def initPort_def new_Client_def)
  have h5: "usable_tab [Some 7]" by simp
  have h6: "client_step 5 ?R (QueryResolves [Some 7]) ?S1 = Some (?E2, ?S2)"
    by (simp add: tabs_query_callback_def flushPendingMessages_def channel_name_def
          int_to_string_def Let_def nat_to_string_7)
  from pending_queue_flushed_once_in_order [OF h1 h2 h3 h4 h5 h6]
  obtain p where p: "port ?S2 = Some p"
      "posts ?E2 = map (Pair p) (concat (map sent_of ?es))"
      "\<forall>m. client_sendMessage m ?S2 = ([PostMessage p m], ?S2)"
      "pendingMessages ?S2 = []"
    by blast
  from p(3) have s: "client_sendMessage ?d ?S2 = ([PostMessage p ?d], ?S2)"
    by blast
  have "port (new_Client Popup :: nat Client) = None
         \<and> pendingMessages (new_Client Popup :: nat Client) = []
         \<and> list_all (\<lambda>e. \<not> establishes e) ?es
         \<and> client_run 5 ?R ?es (new_Client Popup) = Some ([TabsQuery, TabsQuery, TabsQuery], ?S1)
         \<and> usable_tab [Some 7]
         \<and> client_step 5 ?R (QueryResolves [Some 7]) ?S1 = Some (?E2, ?S2)
         \<and> port ?S2 = Some p
         \<and> posts ?E2 = [(p, ?a), (p, ?b), (p, ?c)]
         \<and> pendingMessages ?S2 = []
         \<and> client_sendMessage ?d ?S2 = ([PostMessage p ?d], ?S2)"
    using h1 h2 h3 h4 h5 h6 p(1,2,4) s by (simp add: list_all_iff)
  then show ?thesis
    unfolding Let_def by blast
qed

subsection \<open>C9: the client's channel disconnects\<close>

text \<open>
  Claim C9: from every state with an established channel, the disconnect event leaves the
  manager with an empty listener registry (no type has a subscriber) and without channel
  handle; a \<^verbatim>\<open>sendMessage\<close> after it queues the message and starts a new channel establishment
  (a new \<^verbatim>\<open>chrome.tabs.query\<close>).
\<close>

theorem disconnect_clears_subscriptions_and_handle:
  assumes "port this = Some p"
    and "client_step n run (PortDisconnects q) this = Some (effs, this1)"
  shows "listeners (listenerManager this1) = []
       \<and> registry (listenerManager this1) = []
       \<and> (\<forall>type. subscribers (listenerManager this1) type = [])
       \<and> port this1 = None
       \<and> (\<forall>m. client_sendMessage m this1 =
              ([TabsQuery],
               this1\<lparr>pendingMessages := pendingMessages this1 @ [m],
                     queries_in_flight := queries_in_flight this1 + 1\<rparr>))"
  using assms
  by (auto simp: handlePortDisconnect_def clear_def registry_def subscribers_def
        client_sendMessage_def initPort_def split: if_splits)

theorem disconnect_clears_subscriptions_and_handle_witness:
  "(let P = \<lparr>port_id = 0, port_name = ''popup:7''\<rparr>;
        this = \<lparr>client_layer = Popup, port = Some P,
                listenerManager = snd (subscribe ''t'' 1 new_ListenerManager),
                pendingMessages = ([] :: nat BaseMessage list),
                queries_in_flight = 0, opened = [P]\<rparr>
    in port this = Some P
       \<and> subscribers (listenerManager this) ''t'' = [1]
       \<and> (\<exists>effs this1. client_step 5 (\<lambda>l m sp lm. ([], None)) (PortDisconnects P) this = Some (effs, this1)
             \<and> subscribers (listenerManager this1) ''t'' = []
             \<and> port this1 = None
             \<and> fst (client_sendMessage (BaseMessage ''x'' 0) this1) = [TabsQuery]
             \<and> pendingMessages (snd (client_sendMessage (BaseMessage ''x'' 0) this1))
                 = [BaseMessage ''x'' 0]))"
proof -
  let ?P = "\<lparr>port_id = 0, port_name = ''popup:7''\<rparr>"
  let ?S = "\<lparr>client_layer = Popup, port = Some ?P,
                listenerManager = snd (subscribe ''t'' 1 new_ListenerManager),
                pendingMessages = ([] :: nat BaseMessage list),
                queries_in_flight = 0, opened = [?P]\<rparr>"
  let ?R = "(\<lambda>l m sp lm. ([], None)) :: nat Behaviour"
  have h1: "port ?S = Some ?P" by simp
  have h2: "client_step 5 ?R (PortDisconnects ?P) ?S = Some (handlePortDisconnect ?P ?S)"
    by simp
  obtain effs this1 where e: "handlePortDisconnect ?P ?S = (effs, this1)"
    by (cases "handlePortDisconnect ?P ?S")
  have pend: "pendingMessages this1 = []"
    using e by (auto simp: handlePortDisconnect_def)
  from disconnect_clears_subscriptions_and_handle [OF h1 h2 [unfolded e]]
  have c: "subscribers (listenerManager this1) ''t'' = []" "port this1 = None"
    "client_sendMessage (BaseMessage ''x'' 0) this1 =
       ([TabsQuery], this1\<lparr>pendingMessages := pendingMessages this1 @ [BaseMessage ''x'' 0],
                           queries_in_flight := queries_in_flight this1 + 1\<rparr>)"
    by blast+
  have s: "subscribers (listenerManager ?S) ''t'' = [1]"
    by (simp add: subscribers_def subscribe_def new_ListenerManager_def set_add_def Let_def)
  show ?thesis
    unfolding Let_def
    apply (intro conjI)
      apply (rule h1)
     apply (rule s)
    apply (rule exI [of _ effs])
    apply (rule exI [of _ this1])
    using h2 e c pend by simp
qed

subsection \<open>The invariant of the listener registry\<close>

lemma update_absent: "map_of al k = None \<Longrightarrow> AList.update k v al = al @ [(k, v)]"
  by (induction al) (auto split: if_splits)

lemma subscribe_new:
  "map_of (listeners this) t = None \<Longrightarrow>
   subscribe t l this =
     (\<lparr>captured_listeners = length (sets this), captured_type = t, captured_listener = l\<rparr>,
      this\<lparr>listeners := listeners this @ [(t, length (sets this))],
           sets := sets this @ [[Some l]]\<rparr>)"
  by (simp add: subscribe_def update_absent set_add_def Let_def map_add_def)

lemma subscribe_old:
  "map_of (listeners this) t = Some a \<Longrightarrow>
   subscribe t l this =
     (\<lparr>captured_listeners = a, captured_type = t, captured_listener = l\<rparr>,
      this\<lparr>sets := (sets this)[a := set_add l (sets this ! a)]\<rparr>)"
  by (simp add: subscribe_def Let_def)

lemma set_values_append [simp]: "set_values (es @ es') = set_values es @ set_values es'"
  by (induction es) (auto split: option.splits)

lemma set_values_set: "set (set_values es) = {x. Some x \<in> set es}"
  by (induction es) (auto split: option.splits)

lemma set_values_add:
  "set_values (set_add x es) = (if x \<in> set (set_values es) then set_values es else set_values es @ [x])"
  by (simp add: set_add_def set_values_set)

lemma set_values_add_not_Nil [simp]: "set_values (set_add x es) \<noteq> []"
  by (auto simp: set_values_add)


lemma lm_invariantI:
  assumes "distinct (map fst (listeners this))"
    and "\<And>t a. (t, a) \<in> set (listeners this) \<Longrightarrow> a < length (sets this) \<and> set_values (sets this ! a) \<noteq> []"
    and "\<And>t t' a. (t, a) \<in> set (listeners this) \<Longrightarrow> (t', a) \<in> set (listeners this) \<Longrightarrow> t = t'"
    and "\<And>u. u \<in> set us \<Longrightarrow> captured_listeners u < length (sets this)"
    and "\<And>u t. u \<in> set us \<Longrightarrow> (t, captured_listeners u) \<in> set (listeners this)
            \<Longrightarrow> t = captured_type u"
  shows "lm_invariant this us"
  unfolding lm_invariant_def using assms by blast

lemma lm_invariantD:
  assumes "lm_invariant this us"
  shows "distinct (map fst (listeners this))"
    and "\<And>t a. (t, a) \<in> set (listeners this) \<Longrightarrow> a < length (sets this)"
    and "\<And>t a. (t, a) \<in> set (listeners this) \<Longrightarrow> set_values (sets this ! a) \<noteq> []"
    and "\<And>t t' a. (t, a) \<in> set (listeners this) \<Longrightarrow> (t', a) \<in> set (listeners this) \<Longrightarrow> t = t'"
    and "\<And>u. u \<in> set us \<Longrightarrow> captured_listeners u < length (sets this)"
    and "\<And>u t. u \<in> set us \<Longrightarrow> (t, captured_listeners u) \<in> set (listeners this)
            \<Longrightarrow> t = captured_type u"
  using assms unfolding lm_invariant_def by blast+

lemma lm_invariant_subscribe:
  assumes "lm_invariant this us"
  shows "lm_invariant (snd (subscribe t l this)) (fst (subscribe t l this) # us)"
proof (cases "map_of (listeners this) t")
  case None
  then have "t \<notin> fst ` set (listeners this)"
    by (simp add: map_of_eq_None_iff)
  then have nt: "\<And>a. (t, a) \<notin> set (listeners this)"
    by force
  note D = lm_invariantD [OF assms]
  show ?thesis
    unfolding subscribe_new [OF None]
  proof (rule lm_invariantI; simp)
    show "distinct (map fst (listeners this)) \<and> t \<notin> fst ` set (listeners this)"
      using D(1) nt by force
  next
    fix t' a assume "t' = t \<and> a = length (sets this) \<or> (t', a) \<in> set (listeners this)"
    then show "a < Suc (length (sets this)) \<and> set_values ((sets this @ [[Some l]]) ! a) \<noteq> []"
      using D(2) [of t' a] D(3) [of t' a] by (auto simp: nth_append)
  next
    fix t1 t2 a
    assume "t1 = t \<and> a = length (sets this) \<or> (t1, a) \<in> set (listeners this)"
      and "t2 = t \<and> a = length (sets this) \<or> (t2, a) \<in> set (listeners this)"
    then show "t1 = t2" using D(2) [of t1 a] D(2) [of t2 a] D(4) [of t1 a t2] by auto
  next
    fix u assume "u = \<lparr>captured_listeners = length (sets this), captured_type = t,
                        captured_listener = l\<rparr> \<or> u \<in> set us"
    then show "captured_listeners u < Suc (length (sets this))" using D(5) [of u] by auto
  next
    fix u t'
    assume "u = \<lparr>captured_listeners = length (sets this), captured_type = t,
                        captured_listener = l\<rparr> \<or> u \<in> set us"
      and "t' = t \<and> captured_listeners u = length (sets this)
           \<or> (t', captured_listeners u) \<in> set (listeners this)"
    then show "t' = captured_type u"
      using D(5) [of u] D(6) [of u t'] D(2) [of t' "length (sets this)"] by auto
  qed
next
  case (Some a)
  then have mem: "(t, a) \<in> set (listeners this)" by (rule map_of_SomeD)
  note D = lm_invariantD [OF assms]
  show ?thesis
    unfolding subscribe_old [OF Some]
  proof (rule lm_invariantI; simp)
    show "distinct (map fst (listeners this))" by (rule D(1))
  next
    fix t' a' assume m: "(t', a') \<in> set (listeners this)"
    then show "a' < length (sets this) \<and> set_values ((sets this)[a := set_add l (sets this ! a)] ! a') \<noteq> []"
      using D(2) [OF m] D(3) [OF m] by (cases "a' = a") simp_all
  next
    fix t1 t2 a' assume "(t1, a') \<in> set (listeners this)" "(t2, a') \<in> set (listeners this)"
    then show "t1 = t2" by (rule D(4))
  next
    fix u assume "u = \<lparr>captured_listeners = a, captured_type = t, captured_listener = l\<rparr>
                  \<or> u \<in> set us"
    then show "captured_listeners u < length (sets this)"
      using D(5) [of u] D(2) [OF mem] by auto
  next
    fix u t'
    assume "u = \<lparr>captured_listeners = a, captured_type = t, captured_listener = l\<rparr>
                  \<or> u \<in> set us"
      and "(t', captured_listeners u) \<in> set (listeners this)"
    then show "t' = captured_type u"
      using D(6) [of u t'] D(4) [OF mem, of t'] by auto
  qed
qed

lemma lm_invariant_new: "lm_invariant new_ListenerManager []"
  by (simp add: lm_invariant_def new_ListenerManager_def)

lemma lm_invariant_clear: "lm_invariant this us \<Longrightarrow> lm_invariant (clear this) us"
  by (simp add: lm_invariant_def clear_def)

lemma in_set_delete: "(t, a) \<in> set (AList.delete k al) \<longleftrightarrow> (t, a) \<in> set al \<and> t \<noteq> k"
  by (auto simp: AList.delete_eq)

lemma lm_invariant_unsubscribe:
  assumes "lm_invariant this us" and "u \<in> set us"
  shows "lm_invariant (unsubscribe u this) us"
proof -
  let ?a = "captured_listeners u"
  let ?S = "(sets this)[?a := set_delete (captured_listener u) (sets this ! ?a)]"
  note D = lm_invariantD [OF assms(1)]
  have a: "?a < length (sets this)" using D(5) [OF assms(2)] .
  have own: "t = captured_type u" if "(t, ?a) \<in> set (listeners this)" for t
    using D(6) [OF assms(2) that] .
  show ?thesis
  proof (cases "set_size (?S ! ?a) = 0")
    case True
    then have eq: "unsubscribe u this =
        this\<lparr>sets := ?S, listeners := AList.delete (captured_type u) (listeners this)\<rparr>"
      by (simp add: unsubscribe_def Let_def)
    show ?thesis
      unfolding eq
    proof (rule lm_invariantI; simp add: in_set_delete)
      show "distinct (map fst (AList.delete (captured_type u) (listeners this)))"
        using D(1) by (rule distinct_delete)
    next
      fix t a' assume m: "(t, a') \<in> set (listeners this) \<and> t \<noteq> captured_type u"
      then have "a' \<noteq> ?a" using own by blast
      then show "a' < length (sets this) \<and> set_values (?S ! a') \<noteq> []"
        using D(2) [of t a'] D(3) [of t a'] m by simp
    next
      fix t1 t2 a'
      assume "(t1, a') \<in> set (listeners this) \<and> t1 \<noteq> captured_type u"
        and "(t2, a') \<in> set (listeners this) \<and> t2 \<noteq> captured_type u"
      then show "t1 = t2" using D(4) by blast
    next
      fix v assume "v \<in> set us"
      then show "captured_listeners v < length (sets this)" by (rule D(5))
    next
      fix v t assume "v \<in> set us"
        and "(t, captured_listeners v) \<in> set (listeners this) \<and> t \<noteq> captured_type u"
      then show "t = captured_type v" using D(6) by blast
    qed
  next
    case False
    then have eq: "unsubscribe u this = this\<lparr>sets := ?S\<rparr>"
      by (simp add: unsubscribe_def Let_def)
    show ?thesis
      unfolding eq
    proof (rule lm_invariantI; simp)
      show "distinct (map fst (listeners this))" by (rule D(1))
    next
      fix t a' assume m: "(t, a') \<in> set (listeners this)"
      show "a' < length (sets this) \<and> set_values (?S ! a') \<noteq> []"
        using D(2) [OF m] D(3) [OF m] False by (cases "a' = ?a") (simp_all add: set_size_def)
    next
      fix t1 t2 a' assume "(t1, a') \<in> set (listeners this)" "(t2, a') \<in> set (listeners this)"
      then show "t1 = t2" by (rule D(4))
    next
      fix v assume "v \<in> set us"
      then show "captured_listeners v < length (sets this)" by (rule D(5))
    next
      fix v t assume "v \<in> set us" "(t, captured_listeners v) \<in> set (listeners this)"
      then show "t = captured_type v" by (rule D(6))
    qed
  qed
qed

lemma reachable_invariant: "reachable this us \<Longrightarrow> lm_invariant this us"
  by (induction rule: reachable.induct)
     (simp_all add: lm_invariant_new lm_invariant_subscribe lm_invariant_unsubscribe
        lm_invariant_clear)

lemma reachable_no_empty_entry:
  assumes "reachable this us" and "subscribers this t = []"
  shows "map_of (listeners this) t = None"
proof (cases "map_of (listeners this) t")
  case (Some a)
  then have "(t, a) \<in> set (listeners this)" by (rule map_of_SomeD)
  with lm_invariantD(3) [OF reachable_invariant [OF assms(1)]] have "set_values (sets this ! a) \<noteq> []"
    by blast
  with Some assms(2) show ?thesis by (simp add: subscribers_def)
qed simp

subsection \<open>C8: a message nobody listens to\<close>

text \<open>
  Claim C8: in every reachable state of a \<^verbatim>\<open>ListenerManager\<close>, for a message whose type has
  no subscribers, \<^verbatim>\<open>notify\<close> returns without throwing and its only effect is one warning, with
  the sender's channel name when a sender is given and the message type: no subscriber is
  invoked, and the manager is left as it was.
\<close>

theorem notify_without_subscribers_warns_once:
  assumes "reachable this us" and "subscribers this (msg_type m) = []"
  shows "notify (Suc n) run m sp this =
           Some ([Log Warn ''Not listened port event''
                    (NotListened (map_option port_name sp) (msg_type m))], Inr (), this)"
  using reachable_no_empty_entry [OF assms] by (simp add: notify_def exec_Notify)

theorem notify_without_subscribers_warns_once_witness:
  "(let this = snd (subscribe ''a'' 1 new_ListenerManager);
        us = [fst (subscribe ''a'' 1 new_ListenerManager)];
        m = BaseMessage ''b'' (0::nat);
        sp = Some \<lparr>port_id = 3, port_name = ''popup:7''\<rparr>
    in reachable this us \<and> subscribers this (msg_type m) = []
       \<and> notify (Suc 0) (\<lambda>l m sp lm. ([], None)) m sp this =
           Some ([Log Warn ''Not listened port event'' (NotListened (Some ''popup:7'') ''b'')],
                 Inr (), this))"
proof -
  let ?lm = "snd (subscribe ''a'' 1 new_ListenerManager)"
  let ?us = "[fst (subscribe ''a'' 1 new_ListenerManager)]"
  let ?m = "BaseMessage ''b'' (0::nat)"
  let ?sp = "Some \<lparr>port_id = 3, port_name = ''popup:7''\<rparr>"
  have r: "reachable ?lm ?us"
    by (rule reach_subscribe [OF reach_new])
  have s: "subscribers ?lm (msg_type ?m) = []"
    by (simp add: subscribers_def subscribe_def new_ListenerManager_def Let_def)
  from notify_without_subscribers_warns_once [OF r s, of 0 "\<lambda>l m sp lm. ([], None)" ?sp] r s
  show ?thesis by (simp add: Let_def)
qed

subsection \<open>C6: dispatch to the subscribers of a type\<close>












subsection \<open>Counting the posts of the hub's sendMessage\<close>

lemma wf_connections_empty: "wf_connections []"
  by (simp add: wf_connections_def)

lemma wf_connections_lookup:
  "wf_connections c \<Longrightarrow> map_of c t = Some r \<Longrightarrow> distinct (map fst r)"
  by (force simp: wf_connections_def dest: map_of_SomeD)

lemma set_update_subset: "set (AList.update k v al) \<subseteq> insert (k, v) (set al)"
  by (induction al) auto

lemma wf_connections_update:
  "wf_connections c \<Longrightarrow> distinct (map fst r) \<Longrightarrow> wf_connections (AList.update t r c)"
  unfolding wf_connections_def
  using set_update_subset [of t r c] by (auto simp: distinct_update)

lemma wf_connections_delete: "wf_connections c \<Longrightarrow> wf_connections (AList.delete t c)"
  unfolding wf_connections_def
  using in_set_delete [of _ _ t c] by (auto simp: distinct_delete)

lemma wf_connections_addConnection:
  assumes "wf_connections c"
  shows "wf_connections (addConnection d p c)"
proof (cases "map_of c (tabId d)")
  case None
  have "distinct (map fst (AList.update (layer d) (Some p) empty_layers))"
    by (rule distinct_update) (simp add: empty_layers_def)
  then show ?thesis
    using assms None
    by (simp add: addConnection_def update_conv' wf_connections_update)
next
  case (Some rec)
  have "distinct (map fst (AList.update (layer d) (Some p) rec))"
    using wf_connections_lookup [OF assms Some] by (rule distinct_update)
  then show ?thesis
    using assms Some
    by (simp add: addConnection_def wf_connections_update)
qed

lemma wf_connections_removeConnection:
  "wf_connections c \<Longrightarrow> wf_connections (removeConnection d c)"
  by (auto simp: removeConnection_def Let_def distinct_delete
        intro!: wf_connections_update wf_connections_delete dest: wf_connections_lookup
        split: option.splits)

lemma getConnection_unfold:
  "getConnection \<lparr>layer = r, tabId = t\<rparr> c = Some p \<longleftrightarrow>
     (\<exists>rec. map_of c t = Some rec \<and> map_of rec r = Some (Some p))"
  by (auto simp: getConnection_def split: option.splits)

lemma count_send_layers:
  "count_list (map fst (send_layers rec m ks)) p
     = length (filter (\<lambda>r. map_of rec r = Some (Some p)) ks)"
  by (induction ks) (auto split: option.splits)

lemma count_send_layers_all:
  assumes "distinct (map fst rec)"
  shows "count_list (map fst (send_layers rec m (map fst rec))) p
           = card {r. map_of rec r = Some (Some p)}"
proof -
  have "{r. map_of rec r = Some (Some p)}
          = set (filter (\<lambda>r. map_of rec r = Some (Some p)) (map fst rec))"
    by (auto dest: map_of_SomeD intro: rev_image_eqI)
  moreover have "distinct (filter (\<lambda>r. map_of rec r = Some (Some p)) (map fst rec))"
    using assms by (rule distinct_filter)
  ultimately show ?thesis
    by (simp add: count_send_layers distinct_card del: set_filter)
qed

lemma count_send_tabs_all:
  "count_list (map fst (send_tabs c None m ts)) p
     = sum_list (map (\<lambda>t. case map_of c t of
                        None \<Rightarrow> 0
                      | Some rec \<Rightarrow>
                          count_list (map fst (send_layers rec m (map fst rec))) p) ts)"
  by (induction ts) (auto split: option.splits)

lemma count_send_tabs_role:
  "count_list (map fst (send_tabs c (Some r) m ts)) p
     = sum_list (map (\<lambda>t. case map_of c t of
                        None \<Rightarrow> 0
                      | Some rec \<Rightarrow> count_list (map fst (send_layers rec m [r])) p) ts)"
  by (induction ts) (auto split: option.splits)

lemma mset_object_keys: "mset (object_keys c) = mset (map fst c)"
  by (simp add: object_keys_def)

lemma sum_list_object_keys:
  fixes f :: "TabId \<Rightarrow> nat"
  shows "sum_list (map f (object_keys c)) = sum_list (map f (map fst c))"
proof -
  have "sum_list (map f (object_keys c)) = sum_mset (image_mset f (mset (object_keys c)))"
    by (metis mset_map sum_mset_sum_list)
  also have "\<dots> = sum_mset (image_mset f (mset (map fst c)))"
    by (simp only: mset_object_keys)
  also have "\<dots> = sum_list (map f (map fst c))"
    by (metis mset_map sum_mset_sum_list)
  finally show ?thesis .
qed

lemma slots_of_target:
  assumes "wf_connections c"
  shows "(case map_of c t of
            None \<Rightarrow> 0
          | Some rec \<Rightarrow> count_list (map fst (send_layers rec m (map fst rec))) p)
         = card {r. getConnection \<lparr>layer = r, tabId = t\<rparr> c = Some p}"
proof (cases "map_of c t")
  case None
  then show ?thesis by (simp add: getConnection_unfold)
next
  case (Some rec)
  from wf_connections_lookup [OF assms Some]
  show ?thesis by (simp add: Some getConnection_unfold count_send_layers_all)
qed

lemma slot_of_target_role:
  "(case map_of c t of
      None \<Rightarrow> 0
    | Some rec \<Rightarrow> count_list (map fst (send_layers rec m [r])) p)
   = (if getConnection \<lparr>layer = r, tabId = t\<rparr> c = Some p then 1 else 0)"
  by (auto simp: getConnection_unfold split: option.splits)

lemma finite_layers: "finite (A :: ClientLayer set)"
proof (rule finite_subset)
  show "A \<subseteq> {DevTools, Popup, Options}"
    using ClientLayer.exhaust by auto
qed simp

lemma getConnection_target_registered:
  "getConnection \<lparr>layer = r, tabId = t\<rparr> c = Some p \<Longrightarrow> t \<in> set (map fst c)"
proof -
  assume "getConnection \<lparr>layer = r, tabId = t\<rparr> c = Some p"
  then obtain rec where "map_of c t = Some rec"
    by (auto simp: getConnection_unfold)
  then have "(t, rec) \<in> set c" by (rule map_of_SomeD)
  then show ?thesis by force
qed

lemma card_all_slots:
  assumes "distinct (map fst c)"
  shows "sum_list (map (\<lambda>t. card {r. getConnection \<lparr>layer = r, tabId = t\<rparr> c = Some p}) (map fst c))
         = card {(t, r). getConnection \<lparr>layer = r, tabId = t\<rparr> c = Some p}"
proof -
  let ?B = "\<lambda>t. {r. getConnection \<lparr>layer = r, tabId = t\<rparr> c = Some p}"
  have "{(t, r). getConnection \<lparr>layer = r, tabId = t\<rparr> c = Some p}
          = (SIGMA t:set (map fst c). ?B t)"
    using getConnection_target_registered [of _ _ c p] by auto
  moreover have "card (SIGMA t:set (map fst c). ?B t) = (\<Sum>t\<in>set (map fst c). card (?B t))"
    by (rule card_SigmaI) (simp_all add: finite_layers)
  moreover have "sum_list (map (\<lambda>t. card (?B t)) (map fst c)) = (\<Sum>t\<in>set (map fst c). card (?B t))"
    using assms by (rule sum_list_distinct_conv_sum_set)
  ultimately show ?thesis by simp
qed

lemma sum_list_indicator:
  "sum_list (map (\<lambda>x. if P x then 1 else 0) xs) = length (filter P xs)"
  by (induction xs) auto

lemma card_role_slots:
  assumes "distinct (map fst c)"
  shows "sum_list (map (\<lambda>t. if getConnection \<lparr>layer = r, tabId = t\<rparr> c = Some p then 1 else 0)
                    (map fst c))
         = card {t. getConnection \<lparr>layer = r, tabId = t\<rparr> c = Some p}"
proof -
  let ?P = "\<lambda>t. getConnection \<lparr>layer = r, tabId = t\<rparr> c = Some p"
  have "sum_list (map (\<lambda>t. if ?P t then 1 else 0) (map fst c))
          = length (filter ?P (map fst c))"
    by (rule sum_list_indicator)
  also have "\<dots> = card (set (filter ?P (map fst c)))"
    using assms by (simp add: distinct_card del: set_filter)
  also have "set (filter ?P (map fst c)) = {t. ?P t}"
    using getConnection_target_registered [of r _ c p] by auto
  finally show ?thesis .
qed

lemma message_send_layers: "(p, m') \<in> set (send_layers rec m ks) \<Longrightarrow> m' = m"
  by (induction ks) (auto split: option.splits)

lemma message_send_tabs: "(p, m') \<in> set (send_tabs c sel m ts) \<Longrightarrow> m' = m"
  by (induction ts) (auto split: option.splits dest: message_send_layers)

text \<open>
  What \<^verbatim>\<open>sendMessage\<close> does on any registry whose keys are unique: a handle gets as many posts
  as there are selected slots that hold it.
\<close>

lemma sendMessage_counts_slots:
  assumes "wf_connections c"
  shows "(\<forall>p. count_list (map fst (sendMessage None None m c)) p
               = card {(t, r). getConnection \<lparr>layer = r, tabId = t\<rparr> c = Some p})
       \<and> (\<forall>t p. count_list (map fst (sendMessage (Some t) None m c)) p
               = card {r. getConnection \<lparr>layer = r, tabId = t\<rparr> c = Some p})
       \<and> (\<forall>r p. count_list (map fst (sendMessage None (Some r) m c)) p
               = card {t. getConnection \<lparr>layer = r, tabId = t\<rparr> c = Some p})
       \<and> (\<forall>t r. sendMessage (Some t) (Some r) m c
               = (case getConnection \<lparr>layer = r, tabId = t\<rparr> c of
                    None \<Rightarrow> []
                  | Some p \<Rightarrow> [(p, m)]))
       \<and> (\<forall>ts rs p m'. (p, m') \<in> set (sendMessage ts rs m c) \<longrightarrow> m' = m)"
proof (intro conjI allI impI)
  from assms have d: "distinct (map fst c)" by (simp add: wf_connections_def)
  fix p
  let ?F = "\<lambda>t. case map_of c t of
                   None \<Rightarrow> 0
                 | Some rec \<Rightarrow> count_list (map fst (send_layers rec m (map fst rec))) p"
  have "count_list (map fst (sendMessage None None m c)) p = sum_list (map ?F (object_keys c))"
    by (simp add: sendMessage_def getAllConnections_def count_send_tabs_all)
  also have "\<dots> = sum_list (map ?F (map fst c))"
    by (rule sum_list_object_keys)
  also have "\<dots> = card {(t, r). getConnection \<lparr>layer = r, tabId = t\<rparr> c = Some p}"
    unfolding slots_of_target [OF assms] by (rule card_all_slots [OF d])
  finally show "count_list (map fst (sendMessage None None m c)) p
          = card {(t, r). getConnection \<lparr>layer = r, tabId = t\<rparr> c = Some p}" .
next
  fix t p
  show "count_list (map fst (sendMessage (Some t) None m c)) p
          = card {r. getConnection \<lparr>layer = r, tabId = t\<rparr> c = Some p}"
    using slots_of_target [OF assms, where t = t and m = m and p = p]
    by (simp add: sendMessage_def getAllConnections_def count_send_tabs_all
          del: send_tabs.simps)
next
  from assms have d: "distinct (map fst c)" by (simp add: wf_connections_def)
  fix r p
  let ?F = "\<lambda>t. case map_of c t of
                   None \<Rightarrow> 0
                 | Some rec \<Rightarrow> count_list (map fst (send_layers rec m [r])) p"
  have "count_list (map fst (sendMessage None (Some r) m c)) p = sum_list (map ?F (object_keys c))"
    by (simp add: sendMessage_def getAllConnections_def count_send_tabs_role)
  also have "\<dots> = sum_list (map ?F (map fst c))"
    by (rule sum_list_object_keys)
  also have "\<dots> = card {t. getConnection \<lparr>layer = r, tabId = t\<rparr> c = Some p}"
    unfolding slot_of_target_role by (rule card_role_slots [OF d])
  finally show "count_list (map fst (sendMessage None (Some r) m c)) p
          = card {t. getConnection \<lparr>layer = r, tabId = t\<rparr> c = Some p}" .
next
  fix t r
  show "sendMessage (Some t) (Some r) m c
          = (case getConnection \<lparr>layer = r, tabId = t\<rparr> c of
               None \<Rightarrow> []
             | Some p \<Rightarrow> [(p, m)])"
    by (simp add: sendMessage_def getAllConnections_def getConnection_def split: option.splits)
next
  fix ts rs p m'
  assume "(p, m') \<in> set (sendMessage ts rs m c)"
  then show "m' = m"
    by (simp add: sendMessage_def getAllConnections_def message_send_tabs)
qed

subsection \<open>C2: which channel names the hub registers\<close>

lemma split_on_no_sep: "sep \<notin> set s \<Longrightarrow> split_on sep s = [s]"
  by (induction s) auto


























lemma no_colon_rejected: "CHR '':'' \<notin> set name \<Longrightarrow> rejected_name name"
  by (simp add: rejected_name_def target_segment_def split_on_no_sep js_Number_opt_def
        isNaN_def)











lemma element_append: "element xs i = Some x \<Longrightarrow> element (xs @ ys) i = Some x"
  by (induction xs i rule: element.induct) simp_all





subsection \<open>C1: the four addressing modes of the hub's sendMessage\<close>

lemma getConnection_addConnection_other:
  assumes "d \<noteq> d0"
  shows "getConnection d (addConnection d0 p c) = getConnection d c"
proof (cases "tabId d = tabId d0")
  case False
  then show ?thesis
    by (auto simp: getConnection_def addConnection_def Let_def update_conv' split: option.splits)
next
  case True
  with assms have l: "layer d \<noteq> layer d0" by (cases d, cases d0) auto
  show ?thesis
  proof (cases "map_of c (tabId d0)")
    case None
    with True l show ?thesis
      by (cases "layer d")
         (auto simp: getConnection_def addConnection_def Let_def update_conv' empty_layers_def
           split: option.splits)
  next
    case (Some rec)
    with True l show ?thesis
      by (simp add: getConnection_def addConnection_def Let_def update_conv')
  qed
qed

lemma getConnection_removeConnection_Some:
  "getConnection d (removeConnection d' c) = Some p \<Longrightarrow> getConnection d c = Some p"
  by (auto simp: getConnection_def removeConnection_def Let_def update_conv' delete_conv'
        split: option.splits if_splits)

lemma slots_by_name_addConnection:
  assumes "slots_by_name c" and "extractPortDetails p = Some d0"
  shows "slots_by_name (addConnection d0 p c)"
  unfolding slots_by_name_def
proof (intro allI impI)
  fix d q assume g: "getConnection d (addConnection d0 p c) = Some q"
  show "extractPortDetails q = Some d"
  proof (cases "d = d0")
    case True
    with g assms(2) show ?thesis by (simp add: getConnection_addConnection_same)
  next
    case False
    with g assms(1) show ?thesis
      by (simp add: getConnection_addConnection_other slots_by_name_def)
  qed
qed

lemma slots_by_name_removeConnection:
  "slots_by_name c \<Longrightarrow> slots_by_name (removeConnection d c)"
  unfolding slots_by_name_def by (blast dest: getConnection_removeConnection_Some)

lemma fire_disconnect_invariant:
  "wf_connections (connectionManager h) \<and> slots_by_name (connectionManager h) \<Longrightarrow>
   wf_connections (connectionManager (fire_disconnect p hs h))
   \<and> slots_by_name (connectionManager (fire_disconnect p hs h))"
  by (induction hs arbitrary: h)
     (simp_all add: hub_handlePortDisconnect_def wf_connections_removeConnection
        slots_by_name_removeConnection)

lemma hub_reachable_invariant:
  "hub_reachable h \<Longrightarrow>
   wf_connections (connectionManager h) \<and> slots_by_name (connectionManager h)"
proof (induction rule: hub_reachable.induct)
  case hub_new
  show ?case
    by (simp add: new_Hub_def wf_connections_empty slots_by_name_def getConnection_def)
next
  case (hub_connect h p)
  then show ?case
    by (cases "extractPortDetails p")
       (simp_all add: handleConnection_def wf_connections_addConnection
          slots_by_name_addConnection)
next
  case (hub_disconnect h p)
  from fire_disconnect_invariant [OF hub_disconnect.IH]
  show ?case by (simp add: port_disconnects_def)
qed simp_all

lemma card_if_unique:
  assumes "\<And>x y. x \<in> A \<Longrightarrow> y \<in> A \<Longrightarrow> x = y"
  shows "card A = (if A = {} then 0 else 1)"
proof (cases "A = {}")
  case False
  then obtain a where "a \<in> A" by blast
  with assms have "A = {a}" by blast
  then show ?thesis by simp
qed simp

lemma slots_by_name_unique:
  assumes "slots_by_name c"
    and "getConnection d c = Some p" and "getConnection d' c = Some p"
  shows "d = d'"
  using assms unfolding slots_by_name_def by (metis option.inject)

text \<open>
  Claim C1: in every state the hub reaches (ports connecting and disconnecting in any order)
  and for every message, \<^verbatim>\<open>sendMessage\<close> with an empty selector posts exactly once on every
  handle registered under some (targetId, role); with only a targetId, exactly once on every
  handle registered under that target; with only a role, exactly once on every handle
  registered with that role under some target; with both, on the one handle at that slot, and
  nothing when the target or the slot is absent. In every mode a handle outside the selection
  gets no post, and every post carries the message.
\<close>

theorem sendMessage_addressing_modes:
  assumes "hub_reachable h"
  shows "(\<forall>p. count_list (map fst (sendMessage None None m (connectionManager h))) p
               = (if \<exists>t r. getConnection \<lparr>layer = r, tabId = t\<rparr> (connectionManager h) = Some p
                  then 1 else 0))
       \<and> (\<forall>t p. count_list (map fst (sendMessage (Some t) None m (connectionManager h))) p
               = (if \<exists>r. getConnection \<lparr>layer = r, tabId = t\<rparr> (connectionManager h) = Some p
                  then 1 else 0))
       \<and> (\<forall>r p. count_list (map fst (sendMessage None (Some r) m (connectionManager h))) p
               = (if \<exists>t. getConnection \<lparr>layer = r, tabId = t\<rparr> (connectionManager h) = Some p
                  then 1 else 0))
       \<and> (\<forall>t r. sendMessage (Some t) (Some r) m (connectionManager h)
               = (case getConnection \<lparr>layer = r, tabId = t\<rparr> (connectionManager h) of
                    None \<Rightarrow> []
                  | Some p \<Rightarrow> [(p, m)]))
       \<and> (\<forall>ts rs p m'. (p, m') \<in> set (sendMessage ts rs m (connectionManager h)) \<longrightarrow> m' = m)"
proof -
  let ?c = "connectionManager h"
  from hub_reachable_invariant [OF assms]
  have wf: "wf_connections ?c" and sl: "slots_by_name ?c" by simp_all
  note G = sendMessage_counts_slots [OF wf, of m]
  have u: "d = d'" if "getConnection d ?c = Some p" "getConnection d' ?c = Some p" for d d' p
    using slots_by_name_unique [OF sl that] .
  have a: "card {(t, r). getConnection \<lparr>layer = r, tabId = t\<rparr> ?c = Some p}
             = (if \<exists>t r. getConnection \<lparr>layer = r, tabId = t\<rparr> ?c = Some p then 1 else 0)" for p
  proof -
    have "card {(t, r). getConnection \<lparr>layer = r, tabId = t\<rparr> ?c = Some p}
            = (if {(t, r). getConnection \<lparr>layer = r, tabId = t\<rparr> ?c = Some p} = {} then 0 else 1)"
      by (rule card_if_unique) (use u in fastforce)
    then show ?thesis by auto
  qed
  have b: "card {r. getConnection \<lparr>layer = r, tabId = t\<rparr> ?c = Some p}
             = (if \<exists>r. getConnection \<lparr>layer = r, tabId = t\<rparr> ?c = Some p then 1 else 0)" for t p
  proof -
    have "card {r. getConnection \<lparr>layer = r, tabId = t\<rparr> ?c = Some p}
            = (if {r. getConnection \<lparr>layer = r, tabId = t\<rparr> ?c = Some p} = {} then 0 else 1)"
      by (rule card_if_unique) (use u in fastforce)
    then show ?thesis by auto
  qed
  have c: "card {t. getConnection \<lparr>layer = r, tabId = t\<rparr> ?c = Some p}
             = (if \<exists>t. getConnection \<lparr>layer = r, tabId = t\<rparr> ?c = Some p then 1 else 0)" for r p
  proof -
    have "card {t. getConnection \<lparr>layer = r, tabId = t\<rparr> ?c = Some p}
            = (if {t. getConnection \<lparr>layer = r, tabId = t\<rparr> ?c = Some p} = {} then 0 else 1)"
      by (rule card_if_unique) (use u in fastforce)
    then show ?thesis by auto
  qed
  from G show ?thesis
    unfolding a b c by blast
qed

lemma connectionManager_handleConnection:
  "extractPortDetails p = Some d \<Longrightarrow>
   connectionManager (handleConnection p h) = addConnection d p (connectionManager h)"
  by (simp add: handleConnection_def)

lemma indicator_one: "(n::nat) = (if P then 1 else 0) \<Longrightarrow> n = 1 \<Longrightarrow> P"
  by (cases P) simp_all

lemma indicator_zero: "(n::nat) = (if P then 1 else 0) \<Longrightarrow> n = 0 \<Longrightarrow> \<not> P"
  by (cases P) simp_all

theorem sendMessage_addressing_modes_witness:
  "(let P1 = \<lparr>port_id = 1, port_name = ''popup:5''\<rparr>;
        P2 = \<lparr>port_id = 2, port_name = ''devtools:5''\<rparr>;
        P3 = \<lparr>port_id = 3, port_name = ''popup:7''\<rparr>;
        h = handleConnection P3 (handleConnection P2 (handleConnection P1 new_Hub));
        c = connectionManager h;
        m = BaseMessage ''ping'' (0::nat)
    in hub_reachable h
       \<and> sendMessage None None m c = [(P2, m), (P1, m), (P3, m)]
       \<and> (\<exists>t r. getConnection \<lparr>layer = r, tabId = t\<rparr> c = Some P1)
       \<and> sendMessage (Some (Fin 5)) None m c = [(P2, m), (P1, m)]
       \<and> (\<nexists>r. getConnection \<lparr>layer = r, tabId = Fin 5\<rparr> c = Some P3)
       \<and> sendMessage None (Some Popup) m c = [(P1, m), (P3, m)]
       \<and> (\<nexists>t. getConnection \<lparr>layer = Popup, tabId = t\<rparr> c = Some P2)
       \<and> sendMessage (Some (Fin 7)) (Some Popup) m c = [(P3, m)]
       \<and> sendMessage (Some (Fin 9)) None m c = []
       \<and> sendMessage (Some (Fin 7)) (Some Options) m c = [])"
proof -
  let ?P1 = "\<lparr>port_id = 1, port_name = ''popup:5''\<rparr>"
  let ?P2 = "\<lparr>port_id = 2, port_name = ''devtools:5''\<rparr>"
  let ?P3 = "\<lparr>port_id = 3, port_name = ''popup:7''\<rparr>"
  let ?h = "handleConnection ?P3 (handleConnection ?P2 (handleConnection ?P1 new_Hub))"
  let ?c = "connectionManager ?h"
  let ?m = "BaseMessage ''ping'' (0::nat)"
  have e1: "extractPortDetails ?P1 = Some \<lparr>layer = Popup, tabId = Fin 5\<rparr>" by code_simp
  have e2: "extractPortDetails ?P2 = Some \<lparr>layer = DevTools, tabId = Fin 5\<rparr>" by code_simp
  have e3: "extractPortDetails ?P3 = Some \<lparr>layer = Popup, tabId = Fin 7\<rparr>" by code_simp
  have c: "?c = [(Fin 5, [(DevTools, Some ?P2), (Popup, Some ?P1), (Options, None)]),
                 (Fin 7, [(DevTools, None), (Popup, Some ?P3), (Options, None)])]"
    unfolding connectionManager_handleConnection [OF e3] connectionManager_handleConnection [OF e2]
      connectionManager_handleConnection [OF e1]
    by (simp add: new_Hub_def addConnection_def empty_layers_def)
  have r: "hub_reachable ?h"
    by (intro hub_connect hub_new)
  have keys: "object_keys ?c = [Fin 5, Fin 7]"
    unfolding c by (simp add: object_keys_def)
  have full: "sendMessage None None ?m ?c = [(?P2, ?m), (?P1, ?m), (?P3, ?m)]"
    unfolding sendMessage_def getAllConnections_def Let_def option.case keys
    unfolding c by simp
  have target: "sendMessage (Some (Fin 5)) None ?m ?c = [(?P2, ?m), (?P1, ?m)]"
    unfolding c by (simp add: sendMessage_def getAllConnections_def)
  have role: "sendMessage None (Some Popup) ?m ?c = [(?P1, ?m), (?P3, ?m)]"
    unfolding sendMessage_def getAllConnections_def Let_def option.case keys
    unfolding c by simp
  note T = sendMessage_addressing_modes [OF r, of ?m]
  from T have "count_list (map fst (sendMessage None None ?m ?c)) ?P1
          = (if \<exists>t r. getConnection \<lparr>layer = r, tabId = t\<rparr> ?c = Some ?P1 then 1 else 0)"
    by blast
  moreover have "count_list (map fst (sendMessage None None ?m ?c)) ?P1 = 1"
    unfolding full by simp
  ultimately have a: "\<exists>t r. getConnection \<lparr>layer = r, tabId = t\<rparr> ?c = Some ?P1"
    by (rule indicator_one)
  from T have "count_list (map fst (sendMessage (Some (Fin 5)) None ?m ?c)) ?P3
          = (if \<exists>r. getConnection \<lparr>layer = r, tabId = Fin 5\<rparr> ?c = Some ?P3 then 1 else 0)"
    by blast
  moreover have "count_list (map fst (sendMessage (Some (Fin 5)) None ?m ?c)) ?P3 = 0"
    unfolding target by simp
  ultimately have b: "\<nexists>r. getConnection \<lparr>layer = r, tabId = Fin 5\<rparr> ?c = Some ?P3"
    by (rule indicator_zero)
  from T have "count_list (map fst (sendMessage None (Some Popup) ?m ?c)) ?P2
          = (if \<exists>t. getConnection \<lparr>layer = Popup, tabId = t\<rparr> ?c = Some ?P2 then 1 else 0)"
    by blast
  moreover have "count_list (map fst (sendMessage None (Some Popup) ?m ?c)) ?P2 = 0"
    unfolding role by simp
  ultimately have d: "\<nexists>t. getConnection \<lparr>layer = Popup, tabId = t\<rparr> ?c = Some ?P2"
    by (rule indicator_zero)
  have e: "sendMessage (Some (Fin 7)) (Some Popup) ?m ?c = [(?P3, ?m)]"
    unfolding c by (simp add: sendMessage_def getAllConnections_def)
  have f: "sendMessage (Some (Fin 9)) None ?m ?c = []"
    unfolding c by (simp add: sendMessage_def getAllConnections_def)
  have g: "sendMessage (Some (Fin 7)) (Some Options) ?m ?c = []"
    unfolding c by (simp add: sendMessage_def getAllConnections_def)
  show ?thesis
    unfolding Let_def using r full a target b role d e f g by (intro conjI)
qed

end
